theory Spec2Isabelle
  imports Main "HOL-Library.AList"
begin

text \<open>
  The render lifecycle of \<open>LitElement\<close> (lit-element.ts) and the callbacks that replace a
  live class by a newer one (hot-replace-callback.ts), as functions on explicit state, and
  what holds of them. The properties mixin and the template renderer are external: their
  calls are recorded as events of the element's history.
\<close>

section \<open>JavaScript values, thrown errors and completions\<close>

text \<open>
  A JavaScript call either returns a value or throws. Objects are mutated in place, so
  the state reached survives a throw: every operation below returns a completion paired
  with the state it leaves behind.
\<close>

datatype jsvalue = VUndefined | VNull | VBool bool | VNum int | VStr string | VRef nat

datatype js_error = TypeError | Error string

datatype 'a completion = Normal 'a | Throw js_error

fun is_Normal :: "'a completion \<Rightarrow> bool" where
  "is_Normal (Normal _) = True"
| "is_Normal (Throw _) = False"

section \<open>lit-element.ts: the render lifecycle\<close>

type_synonym props = "(string \<times> jsvalue) list"

type_synonym template = string

text \<open>
  A render root: whether it is a ShadowRoot, and the tag names of its direct children.
  What the external template renderer does to the children is outside this model; its
  call is recorded as an event.
\<close>

record node =
  nodeId :: nat
  isShadowRoot :: bool
  childTags :: "string list"

text \<open>
  The observable history of an element. \<open>RenderCalled\<close> is the call of the user's
  \<open>_render\<close>, \<open>TemplateRendered\<close> the call of lit-html's \<open>render(result, node, scopeName)\<close>,
  \<open>ResolveCalled p v\<close> the call of promise \<open>p\<close>'s resolve function with \<open>v\<close>.
\<close>

datatype event =
    ShouldRenderCalled props props props
  | SuperPropertiesChanged props props props
  | RenderCalled props
  | TemplateRendered template node string
  | DidRenderCalled props props props
  | PromiseCreated nat
  | ResolveCalled nat bool
  | SuperInvalidateProperties
  | GetUniqueStylesCalled
  | AdoptStylesCalled
  | SuperReady

text \<open>The one kind of microtask the class queues: \<open>() => this.__resolveRenderComplete!(false)\<close>.\<close>

datatype microtask = CallResolveFalse

text \<open>
  The fields of \<open>LitElement\<close>. \<open>renderComplete_promise\<close> is \<open>__renderComplete\<close> (a promise,
  named by its number, or null); \<open>resolveRenderComplete\<close> is \<open>__resolveRenderComplete\<close>: the
  closure made for promise \<open>p\<close>, or null. \<open>root\<close> is \<open>_root\<close>, undefined until \<open>ready()\<close> sets
  it. With them: the number of promises made so far, the queued microtasks, the history.
\<close>

record element =
  renderComplete_promise :: "nat option"
  resolveRenderComplete :: "nat option"
  isInvalid :: bool
  isChanging :: bool
  root :: "node option"
  localName :: string
  promiseCount :: nat
  microtasks :: "microtask list"
  trace :: "event list"

text \<open>
  The methods a subclass overrides, by what they return: \<open>_shouldRender\<close>, \<open>_render\<close>
  (\<open>None\<close> is a falsy result) and \<open>_didRender\<close>. A hook is user code and may throw. It is
  taken to leave the element's own fields alone: it neither reads \<open>renderComplete\<close> nor
  requests a render while it runs.
\<close>

record hooks =
  shouldRender :: "props \<Rightarrow> props \<Rightarrow> props \<Rightarrow> bool completion"
  render :: "props \<Rightarrow> template option completion"
  didRender :: "props \<Rightarrow> props \<Rightarrow> props \<Rightarrow> unit completion"

text \<open>The methods as \<open>LitElement\<close> itself defines them: \<open>_render\<close> throws.\<close>

definition default_hooks :: hooks where
  "default_hooks =
     \<lparr>shouldRender = (\<lambda>_ _ _. Normal True),
      render = (\<lambda>_. Throw (Error ''_render() not implemented'')),
      didRender = (\<lambda>_ _ _. Normal ())\<rparr>"

definition new_element :: "string \<Rightarrow> element" where
  "new_element name =
     \<lparr>renderComplete_promise = None, resolveRenderComplete = None, isInvalid = False,
      isChanging = False, root = None, localName = name, promiseCount = 0,
      microtasks = [], trace = []\<rparr>"

definition emit :: "event \<Rightarrow> element \<Rightarrow> element" where
  "emit e s = s\<lparr>trace := trace s @ [e]\<rparr>"

text \<open>
  \<open>ready()\<close>: \<open>this._root = this._createRoot(); super.ready(); this._firstRendered()\<close>. The
  node is what \<open>_createRoot\<close> returns, by default a new open shadow root; a subclass may
  return the element itself. \<open>_firstRendered\<close> does nothing unless it is overridden, and
  like the other hooks it is taken to leave the element's fields alone. A throw of
  \<open>_createRoot\<close> leaves the element as it was, and a throw of \<open>_firstRendered\<close> leaves it as
  the call would: \<open>ready\<close> needs no error branch for the state it reaches.

  Modelled from the spec: \<open>super.ready\<close> belongs to the properties mixin, which is not in
  the repository; the spec has it "invoked once per instance before first property
  flush". The call is recorded, and the first flush is a flush like any other.
\<close>

definition ready :: "node \<Rightarrow> element \<Rightarrow> element" where
  "ready n s = emit SuperReady (s\<lparr>root := Some n\<rparr>)"

text \<open>
  Calling \<open>this.__resolveRenderComplete(value)\<close>. The closure made in the getter for
  promise \<open>p\<close> clears both fields and calls \<open>p\<close>'s resolve function. Calling the field
  while it is null is a TypeError.
\<close>

definition call_resolveRenderComplete :: "bool \<Rightarrow> element \<Rightarrow> unit completion \<times> element" where
  "call_resolveRenderComplete v s =
     (case resolveRenderComplete s of
        None \<Rightarrow> (Throw TypeError, s)
      | Some p \<Rightarrow>
          (Normal (),
           emit (ResolveCalled p v)
             (s\<lparr>resolveRenderComplete := None, renderComplete_promise := None\<rparr>)))"

definition shouldPropertiesChange ::
  "hooks \<Rightarrow> props \<Rightarrow> props \<Rightarrow> props \<Rightarrow> element \<Rightarrow> bool completion \<times> element" where
  "shouldPropertiesChange h cur chg prv s =
     (let s1 = emit (ShouldRenderCalled cur chg prv) s in
      case shouldRender h cur chg prv of
        Throw e \<Rightarrow> (Throw e, s1)
      | Normal b \<Rightarrow>
          if \<not> b \<and> resolveRenderComplete s1 \<noteq> None
          then (Normal b, snd (call_resolveRenderComplete False s1))
          else (Normal b, s1))"

definition applyRender :: "template \<Rightarrow> node \<Rightarrow> element \<Rightarrow> element" where
  "applyRender result n s = emit (TemplateRendered result n (localName s)) s"

definition propertiesChanged ::
  "hooks \<Rightarrow> props \<Rightarrow> props \<Rightarrow> props \<Rightarrow> element \<Rightarrow> unit completion \<times> element" where
  "propertiesChanged h cur chg prv s =
     (let s1 = emit (SuperPropertiesChanged cur chg prv) s;
          s2 = emit (RenderCalled cur) s1 in
      case render h cur of
        Throw e \<Rightarrow> (Throw e, s2)
      | Normal result \<Rightarrow>
          (let s3 = (case result of
                       None \<Rightarrow> s2
                     | Some t \<Rightarrow> (case root s2 of None \<Rightarrow> s2 | Some n \<Rightarrow> applyRender t n s2));
               s4 = emit (DidRenderCalled cur chg prv) s3 in
           (case didRender h cur chg prv of
              Throw e \<Rightarrow> (Throw e, s4)
            | Normal _ \<Rightarrow>
                if resolveRenderComplete s4 \<noteq> None
                then call_resolveRenderComplete True s4
                else (Normal (), s4))))"

text \<open>
  Modelled from the spec: \<open>super._flushProperties\<close> belongs to the properties mixin, which
  is not in the repository. The spec has the guard "evaluated before every property-change
  flush" and the change notification "invoked by the external properties mixin"; the doc
  comment of \<open>_shouldPropertiesChange\<close> says the same ("If this method returns false,
  _propertiesChanged will not be called"). The three property bags are the mixin's and are
  passed in by the caller. The mixin catches nothing.
\<close>

definition super_flushProperties ::
  "hooks \<Rightarrow> props \<Rightarrow> props \<Rightarrow> props \<Rightarrow> element \<Rightarrow> unit completion \<times> element" where
  "super_flushProperties h cur chg prv s =
     (case shouldPropertiesChange h cur chg prv s of
        (Throw e, s1) \<Rightarrow> (Throw e, s1)
      | (Normal b, s1) \<Rightarrow> if b then propertiesChanged h cur chg prv s1 else (Normal (), s1))"

definition flushProperties ::
  "hooks \<Rightarrow> props \<Rightarrow> props \<Rightarrow> props \<Rightarrow> element \<Rightarrow> unit completion \<times> element" where
  "flushProperties h cur chg prv s =
     (let s1 = s\<lparr>isChanging := True\<rparr>;
          s2 = s1\<lparr>isInvalid := False\<rparr> in
      case super_flushProperties h cur chg prv s2 of
        (Throw e, s3) \<Rightarrow> (Throw e, s3)
      | (Normal _, s3) \<Rightarrow> (Normal (), s3\<lparr>isChanging := False\<rparr>))"

text \<open>
  Modelled from the spec: \<open>super._invalidateProperties\<close> belongs to the properties mixin;
  the spec says that an invalidation "schedules the flush". When the mixin then runs the
  flush is its own business: the call is recorded, and a flush is an action that may
  come at any time.
\<close>

definition super_invalidateProperties :: "element \<Rightarrow> element" where
  "super_invalidateProperties s = emit SuperInvalidateProperties s"

definition invalidateProperties :: "element \<Rightarrow> element" where
  "invalidateProperties s = super_invalidateProperties (s\<lparr>isInvalid := True\<rparr>)"

definition requestRender :: "element \<Rightarrow> element" where
  "requestRender s = invalidateProperties s"

text \<open>
  The getter \<open>renderComplete\<close>. The executor of \<open>new Promise\<close> runs at once, so the resolver
  field is set before the promise field.
\<close>

definition renderComplete :: "element \<Rightarrow> nat option \<times> element" where
  "renderComplete s =
     (if renderComplete_promise s = None
      then
        let p = promiseCount s;
            s1 = emit (PromiseCreated p) (s\<lparr>promiseCount := Suc p, resolveRenderComplete := Some p\<rparr>);
            s2 = s1\<lparr>renderComplete_promise := Some p\<rparr>;
            s3 = (if \<not> isInvalid s2 \<and> resolveRenderComplete s2 \<noteq> None
                  then s2\<lparr>microtasks := microtasks s2 @ [CallResolveFalse]\<rparr>
                  else s2)
        in (renderComplete_promise s3, s3)
      else (renderComplete_promise s, s))"

text \<open>Running the oldest queued microtask. A throw inside it is an unhandled rejection.\<close>

definition runMicrotask :: "element \<Rightarrow> unit completion \<times> element" where
  "runMicrotask s =
     (case microtasks s of
        [] \<Rightarrow> (Normal (), s)
      | CallResolveFalse # ts \<Rightarrow> call_resolveRenderComplete False (s\<lparr>microtasks := ts\<rparr>))"

subsection \<open>Promises, read off the history\<close>

text \<open>
  The values promise \<open>p\<close>'s resolve function was called with, oldest first. A promise
  settles at the first call.
\<close>

definition resolutions :: "nat \<Rightarrow> event list \<Rightarrow> bool list" where
  "resolutions p tr = concat (map (\<lambda>e. case e of ResolveCalled q v \<Rightarrow> if q = p then [v] else [] | _ \<Rightarrow> []) tr)"

definition settled :: "nat \<Rightarrow> element \<Rightarrow> bool option" where
  "settled p s = (case resolutions p (trace s) of [] \<Rightarrow> None | v # _ \<Rightarrow> Some v)"



fun is_template_render :: "event \<Rightarrow> bool" where
  "is_template_render (TemplateRendered _ _ _) = True"
| "is_template_render _ = False"




subsection \<open>Histories of an element\<close>

text \<open>
  What can happen to an element, one call at a time: a read of \<open>renderComplete\<close>, a call of
  \<open>_requestRender\<close>, a call of \<open>ready\<close>, which sets the render root, a flush (by the mixin,
  at a time of its choosing, with its property bags), and the run of the oldest queued
  microtask. An uncaught throw ends the call and leaves the state it reached.
\<close>

datatype action =
    ReadRenderComplete
  | RequestRender
  | Flush props props props
  | Microtask
  | Ready node

fun step :: "hooks \<Rightarrow> action \<Rightarrow> element \<Rightarrow> element" where
  "step h ReadRenderComplete s = snd (renderComplete s)"
| "step h RequestRender s = requestRender s"
| "step h (Flush cur chg prv) s = snd (flushProperties h cur chg prv s)"
| "step h Microtask s = snd (runMicrotask s)"
| "step h (Ready n) s = ready n s"

fun run :: "hooks \<Rightarrow> action list \<Rightarrow> element \<Rightarrow> element" where
  "run h [] s = s"
| "run h (a # as) s = run h as (step h a s)"



text \<open>
  The events of a flush whose hooks return: the guard's call, and when it lets the cycle
  through (\<open>b\<close>), the events of \<open>_propertiesChanged\<close> up to the \<open>_didRender\<close> hook.
\<close>

definition cycle_events :: "template option \<Rightarrow> element \<Rightarrow> props \<Rightarrow> props \<Rightarrow> props \<Rightarrow> event list" where
  "cycle_events result s cur chg prv =
     [SuperPropertiesChanged cur chg prv, RenderCalled cur] @
     (case result of
        None \<Rightarrow> []
      | Some t \<Rightarrow> (case root s of None \<Rightarrow> [] | Some n \<Rightarrow> [TemplateRendered t n (localName s)])) @
     [DidRenderCalled cur chg prv]"

definition flush_events ::
  "bool \<Rightarrow> template option \<Rightarrow> element \<Rightarrow> props \<Rightarrow> props \<Rightarrow> props \<Rightarrow> event list" where
  "flush_events b result s cur chg prv =
     ShouldRenderCalled cur chg prv # (if b then cycle_events result s cur chg prv else [])"





text \<open>A subclass whose guard lets a cycle through when some property changed.\<close>

definition example_hooks :: hooks where
  "example_hooks =
     \<lparr>shouldRender = (\<lambda>cur chg prv. Normal (chg \<noteq> [])),
      render = (\<lambda>cur. Normal (Some ''<p>hello</p>'')),
      didRender = (\<lambda>cur chg prv. Normal ())\<rparr>"

section \<open>hot-replace-callback.ts: objects and their own properties\<close>

text \<open>
  A property descriptor as \<open>Object.getOwnPropertyDescriptor\<close> returns it, complete: a data
  descriptor (value, writable, enumerable, configurable) or an accessor descriptor (get,
  set, enumerable, configurable).
\<close>

datatype descriptor =
    DataDescriptor jsvalue bool bool bool
  | AccessorDescriptor jsvalue jsvalue bool bool

fun configurable :: "descriptor \<Rightarrow> bool" where
  "configurable (DataDescriptor v w e c) = c"
| "configurable (AccessorDescriptor g s e c) = c"

text \<open>
  An object as the module sees it: its own string-named properties in creation order (what
  \<open>Object.getOwnPropertyNames\<close> lists; symbol-keyed properties are not listed and so never
  handled), and whether it is extensible.
\<close>

record jsobject =
  properties :: "(string \<times> descriptor) list"
  extensible :: bool

definition getOwnPropertyNames :: "jsobject \<Rightarrow> string list" where
  "getOwnPropertyNames obj = map fst (properties obj)"

definition getOwnPropertyDescriptor :: "jsobject \<Rightarrow> string \<Rightarrow> descriptor option" where
  "getOwnPropertyDescriptor obj k = map_of (properties obj) k"

text \<open>
  May a complete descriptor be applied over a non-configurable property? (ECMAScript,
  ValidateAndApplyPropertyDescriptor.)
\<close>

fun compatible :: "descriptor \<Rightarrow> descriptor \<Rightarrow> bool" where
  "compatible (DataDescriptor v w e c) (DataDescriptor v' w' e' c') =
     (\<not> c' \<and> e' = e \<and> (w \<or> (\<not> w' \<and> v' = v)))"
| "compatible (AccessorDescriptor g s e c) (AccessorDescriptor g' s' e' c') =
     (\<not> c' \<and> e' = e \<and> g' = g \<and> s' = s)"
| "compatible _ _ = False"

text \<open>
  \<open>Object.defineProperty(obj, k, d)\<close>: a new property needs an extensible object, a
  non-configurable one accepts only a compatible descriptor; else TypeError. A property
  that is redefined keeps its place, a new one goes last.
\<close>

definition defineProperty :: "jsobject \<Rightarrow> string \<Rightarrow> descriptor \<Rightarrow> unit completion \<times> jsobject" where
  "defineProperty obj k d =
     (case getOwnPropertyDescriptor obj k of
        None \<Rightarrow>
          if extensible obj
          then (Normal (), obj\<lparr>properties := AList.update k d (properties obj)\<rparr>)
          else (Throw TypeError, obj)
      | Some cur \<Rightarrow>
          if configurable cur \<or> compatible cur d
          then (Normal (), obj\<lparr>properties := AList.update k d (properties obj)\<rparr>)
          else (Throw TypeError, obj))"

text \<open>
  \<open>delete obj[k]\<close> in strict code (the file is a module): deleting a non-configurable own
  property throws TypeError.
\<close>

definition deleteProperty :: "jsobject \<Rightarrow> string \<Rightarrow> bool completion \<times> jsobject" where
  "deleteProperty obj k =
     (case getOwnPropertyDescriptor obj k of
        None \<Rightarrow> (Normal True, obj)
      | Some cur \<Rightarrow>
          if configurable cur
          then (Normal True, obj\<lparr>properties := AList.delete k (properties obj)\<rparr>)
          else (Throw TypeError, obj))"

text \<open>\<open>new Set(names)\<close>, iterated in insertion order: each name once, at its first place.\<close>

definition Set_of :: "'a list \<Rightarrow> 'a list" where
  "Set_of xs = foldl (\<lambda>acc x. if x \<in> set acc then acc else acc @ [x]) [] xs"

text \<open>The first loop of \<open>updateObjectMembers\<close>; a throw of \<open>defineProperty\<close> is not caught.\<close>

fun copyMembers :: "string list \<Rightarrow> jsobject \<Rightarrow> jsobject \<Rightarrow> unit completion \<times> jsobject" where
  "copyMembers [] newClass hmrClass = (Normal (), hmrClass)"
| "copyMembers (prop # rest) newClass hmrClass =
     (case getOwnPropertyDescriptor newClass prop of
        None \<Rightarrow> copyMembers rest newClass hmrClass
      | Some d \<Rightarrow>
          if configurable d
          then (case defineProperty hmrClass prop d of
                  (Throw e, hmrClass') \<Rightarrow> (Throw e, hmrClass')
                | (Normal _, hmrClass') \<Rightarrow> copyMembers rest newClass hmrClass')
          else copyMembers rest newClass hmrClass)"

text \<open>The second loop; \<open>try { delete ... } catch {}\<close> drops the throw.\<close>

fun deleteMembers :: "string list \<Rightarrow> string list \<Rightarrow> jsobject \<Rightarrow> jsobject" where
  "deleteMembers [] newProperties hmrClass = hmrClass"
| "deleteMembers (existingProp # rest) newProperties hmrClass =
     (if existingProp \<notin> set newProperties
      then deleteMembers rest newProperties (snd (deleteProperty hmrClass existingProp))
      else deleteMembers rest newProperties hmrClass)"

definition updateObjectMembers :: "jsobject \<Rightarrow> jsobject \<Rightarrow> unit completion \<times> jsobject" where
  "updateObjectMembers hmrClass newClass =
     (let currentProperties = Set_of (getOwnPropertyNames hmrClass);
          newProperties = Set_of (getOwnPropertyNames newClass) in
      case copyMembers (getOwnPropertyNames newClass) newClass hmrClass of
        (Throw e, hmrClass') \<Rightarrow> (Throw e, hmrClass')
      | (Normal _, hmrClass') \<Rightarrow>
          (Normal (), deleteMembers currentProperties newProperties hmrClass'))"

text \<open>
  When every \<open>defineProperty\<close> of the first loop succeeds: each configurable property of
  the source finds, on the target, a configurable property of its name, or none and an
  extensible target.
\<close>

definition definable :: "jsobject \<Rightarrow> jsobject \<Rightarrow> bool" where
  "definable target source =
     list_all (\<lambda>k. case getOwnPropertyDescriptor source k of
                     None \<Rightarrow> True
                   | Some d \<Rightarrow>
                       \<not> configurable d \<or>
                       (case getOwnPropertyDescriptor target k of
                          None \<Rightarrow> extensible target
                        | Some cur \<Rightarrow> configurable cur))
       (getOwnPropertyNames source)"

subsection \<open>The static callback\<close>

text \<open>A class: the own properties of the constructor and those of its prototype object.\<close>

record jsclass =
  statics :: jsobject
  prototype :: jsobject

text \<open>
  Modelled from the spec: \<open>finalize\<close> is called by the static callback but defined nowhere
  in the sources (the \<open>LitElement\<close> of lit-element.ts has no such method; the spec lists it
  with what the properties mixin supplies). The spec calls it a "static, idempotent
  one-time setup", "e.g., property-metadata computation", has it run on the new class
  because "copying must observe the fully-initialized new definition", and on the old
  class so that it "recomputes any derived static metadata ... from the newly merged
  members". So the setup keeps what it derives in own static properties of the class,
  where the copy finds it. The mixin is a parameter: \<open>slots\<close> are the names of those
  properties and \<open>derive\<close> gives the value of each, computed from the members of the class.
  A value is stored as an ordinary property (writable, enumerable, configurable), with
  \<open>defineProperty\<close>: over a non-configurable property of that name the setup throws.
\<close>

record mixin =
  slots :: "string list"
  derive :: "jsobject \<Rightarrow> jsobject \<Rightarrow> string \<Rightarrow> jsvalue"

fun storeMetadata :: "(string \<times> jsvalue) list \<Rightarrow> jsobject \<Rightarrow> unit completion \<times> jsobject" where
  "storeMetadata [] cls = (Normal (), cls)"
| "storeMetadata ((k, v) # rest) cls =
     (case defineProperty cls k (DataDescriptor v True True True) of
        (Throw e, cls') \<Rightarrow> (Throw e, cls')
      | (Normal _, cls') \<Rightarrow> storeMetadata rest cls')"

definition finalize :: "mixin \<Rightarrow> jsclass \<Rightarrow> unit completion \<times> jsclass" where
  "finalize m cls =
     (case storeMetadata (map (\<lambda>k. (k, derive m (statics cls) (prototype cls) k)) (slots m))
             (statics cls) of
        (r, st) \<Rightarrow> (r, cls\<lparr>statics := st\<rparr>))"

text \<open>
  \<open>LitElement.hotReplaceCallback(newClass)\<close>, with \<open>this\<close> the live class. Both classes are
  mutated, so both are returned. Nothing is caught: a throw ends the callback where it
  occurs.
\<close>

definition hotReplaceCallback_static ::
  "mixin \<Rightarrow> jsclass \<times> jsclass \<Rightarrow> unit completion \<times> (jsclass \<times> jsclass)" where
  "hotReplaceCallback_static m classes =
     (let this = fst classes in
      case finalize m (snd classes) of
        (Throw e, newClass) \<Rightarrow> (Throw e, (this, newClass))
      | (Normal _, newClass) \<Rightarrow>
          (case updateObjectMembers (statics this) (statics newClass) of
             (Throw e, st) \<Rightarrow> (Throw e, (this\<lparr>statics := st\<rparr>, newClass))
           | (Normal _, st) \<Rightarrow>
               (let this1 = this\<lparr>statics := st\<rparr> in
                case updateObjectMembers (prototype this1) (prototype newClass) of
                  (Throw e, pr) \<Rightarrow> (Throw e, (this1\<lparr>prototype := pr\<rparr>, newClass))
                | (Normal _, pr) \<Rightarrow>
                    (case finalize m (this1\<lparr>prototype := pr\<rparr>) of
                       (r, this2) \<Rightarrow> (r, (this2, newClass))))))"

subsection \<open>The instance callback\<close>

text \<open>What the module reads from the browser to compute \<open>supportsAdoptingStyleSheets\<close>.\<close>

record browser =
  windowShadowRoot :: bool
  shadyCSS_nativeShadow :: "bool option"
  documentHasAdoptedStyleSheets :: bool
  styleSheetHasReplace :: bool

definition supportsAdoptingStyleSheets :: "browser \<Rightarrow> bool" where
  "supportsAdoptingStyleSheets w =
     (windowShadowRoot w \<and>
      (case shadyCSS_nativeShadow w of None \<Rightarrow> True | Some native \<Rightarrow> native) \<and>
      documentHasAdoptedStyleSheets w \<and> styleSheetHasReplace w)"

definition toLowerCase :: "string \<Rightarrow> string" where
  "toLowerCase str =
     map (\<lambda>ch. if (65::nat) \<le> of_char ch \<and> of_char ch \<le> (90::nat)
              then char_of (of_char ch + (32::nat)) else ch) str"

text \<open>
  Modelled from the spec: the instance callback uses \<open>renderRoot\<close>, \<open>_getUniqueStyles\<close>,
  \<open>adoptStyles\<close> and \<open>requestUpdate\<close>, none of which the \<open>LitElement\<close> of lit-element.ts
  defines. Following the spec, \<open>renderRoot\<close> is the node output is projected into (the field
  \<open>root\<close>), recomputing the style list and adopting styles are recorded as calls, and the
  last step is a "\<open>requestRender()\<close> equivalent".
\<close>

definition getUniqueStyles :: "element \<Rightarrow> element" where
  "getUniqueStyles s = emit GetUniqueStylesCalled s"

definition adoptStyles :: "element \<Rightarrow> element" where
  "adoptStyles s = emit AdoptStylesCalled s"

definition requestUpdate :: "element \<Rightarrow> element" where
  "requestUpdate s = requestRender s"

definition removeStyleChildren :: "element \<Rightarrow> unit completion \<times> element" where
  "removeStyleChildren s =
     (case root s of
        None \<Rightarrow> (Throw TypeError, s)
      | Some r \<Rightarrow>
          (Normal (),
           s\<lparr>root := Some (r\<lparr>childTags :=
                filter (\<lambda>tag. \<not> (tag \<noteq> [] \<and> toLowerCase tag = ''style'')) (childTags r)\<rparr>)\<rparr>))"

definition hotReplaceCallback :: "browser \<Rightarrow> element \<Rightarrow> unit completion \<times> element" where
  "hotReplaceCallback w s =
     (case (if \<not> supportsAdoptingStyleSheets w then removeStyleChildren s else (Normal (), s)) of
        (Throw e, s1) \<Rightarrow> (Throw e, s1)
      | (Normal _, s1) \<Rightarrow>
          (let s2 = getUniqueStyles s1;
               s3 = (if windowShadowRoot w \<and> (case root s2 of None \<Rightarrow> False | Some r \<Rightarrow> isShadowRoot r)
                     then adoptStyles s2 else s2)
           in (Normal (), requestUpdate s3)))"

text \<open>
  A live class object and two replacements. \<open>prototype\<close> is non-configurable on every
  class; \<open>pinned\<close> is a non-configurable static of the live class only.
\<close>

definition example_old :: jsobject where
  "example_old =
     \<lparr>properties =
        [(''prototype'', DataDescriptor (VRef 1) False False False),
         (''name'', DataDescriptor (VStr ''Old'') False False True),
         (''legacy'', DataDescriptor (VNum 1) True True True),
         (''pinned'', DataDescriptor (VNum 7) False False False)],
      extensible = True\<rparr>"

definition example_new :: jsobject where
  "example_new =
     \<lparr>properties =
        [(''prototype'', DataDescriptor (VRef 2) False False False),
         (''name'', DataDescriptor (VStr ''New'') False False True),
         (''version'', DataDescriptor (VNum 2) True True True)],
      extensible = True\<rparr>"

definition example_clash :: jsobject where
  "example_clash =
     \<lparr>properties =
        [(''name'', DataDescriptor (VStr ''New'') False False True),
         (''pinned'', DataDescriptor (VNum 8) True True True)],
      extensible = True\<rparr>"

text \<open>
  The scenario of the two classes: the live class \<open>Old\<close>, finalized earlier, whose
  \<open>render\<close> gives A, and its replacement \<open>New\<close>, not yet finalized, whose \<open>render\<close> gives B
  and which has the new static \<open>version\<close>. The mixin of the example keeps one piece of
  metadata, \<open>_observed\<close>: how many own static members the class has, \<open>_observed\<close> itself
  not counted.
\<close>

definition example_old_prototype :: jsobject where
  "example_old_prototype =
     \<lparr>properties =
        [(''constructor'', DataDescriptor (VRef 1) True False True),
         (''render'', DataDescriptor (VStr ''A'') True False True)],
      extensible = True\<rparr>"

definition example_new_prototype :: jsobject where
  "example_new_prototype =
     \<lparr>properties =
        [(''constructor'', DataDescriptor (VRef 2) True False True),
         (''render'', DataDescriptor (VStr ''B'') True False True)],
      extensible = True\<rparr>"

definition example_mixin :: mixin where
  "example_mixin =
     \<lparr>slots = [''_observed''],
      derive = (\<lambda>st pr k.
         VNum (int (length (filter (\<lambda>n. n \<noteq> ''_observed'') (getOwnPropertyNames st)))))\<rparr>"

definition example_old_class :: jsclass where
  "example_old_class =
     \<lparr>statics =
        \<lparr>properties =
           [(''prototype'', DataDescriptor (VRef 1) False False False),
            (''name'', DataDescriptor (VStr ''Old'') False False True),
            (''legacy'', DataDescriptor (VNum 1) True True True),
            (''pinned'', DataDescriptor (VNum 7) False False False),
            (''_observed'', DataDescriptor (VNum 4) True True True)],
         extensible = True\<rparr>,
      prototype = example_old_prototype\<rparr>"

definition example_new_class :: jsclass where
  "example_new_class =
     \<lparr>statics =
        \<lparr>properties =
           [(''prototype'', DataDescriptor (VRef 2) False False False),
            (''name'', DataDescriptor (VStr ''New'') False False True),
            (''version'', DataDescriptor (VNum 2) True True True)],
         extensible = True\<rparr>,
      prototype = example_new_prototype\<rparr>"

section \<open>Histories and the promises in them\<close>


lemma resolutions_append: "resolutions p (xs @ ys) = resolutions p xs @ resolutions p ys"
  by (simp add: resolutions_def)

lemma resolutions_Nil: "resolutions p [] = []"
  by (simp add: resolutions_def)

lemma resolutions_Cons:
  "resolutions p (e # es) =
     (case e of ResolveCalled q v \<Rightarrow> if q = p then [v] else [] | _ \<Rightarrow> []) @ resolutions p es"
  by (simp add: resolutions_def)










lemma settled_None: "settled q s = None \<longleftrightarrow> resolutions q (trace s) = []"
  by (simp add: settled_def split: list.splits)

section \<open>What the lifecycle operations do when the hooks return\<close>

lemma call_resolve_Some:
  "resolveRenderComplete s = Some q \<Longrightarrow>
   call_resolveRenderComplete v s =
     (Normal (), s\<lparr>resolveRenderComplete := None, renderComplete_promise := None,
                   trace := trace s @ [ResolveCalled q v]\<rparr>)"
  by (simp add: call_resolveRenderComplete_def emit_def)

lemma shouldPropertiesChange_returns:
  assumes "shouldRender h cur chg prv = Normal b"
  shows "shouldPropertiesChange h cur chg prv s =
     (Normal b,
      case resolveRenderComplete s of
        None \<Rightarrow> s\<lparr>trace := trace s @ [ShouldRenderCalled cur chg prv]\<rparr>
      | Some q \<Rightarrow>
          if b then s\<lparr>trace := trace s @ [ShouldRenderCalled cur chg prv]\<rparr>
          else s\<lparr>resolveRenderComplete := None, renderComplete_promise := None,
                 trace := trace s @ [ShouldRenderCalled cur chg prv, ResolveCalled q False]\<rparr>)"
  using assms
  by (simp add: shouldPropertiesChange_def call_resolveRenderComplete_def emit_def Let_def
      split: option.splits)

lemma propertiesChanged_returns:
  assumes "render h cur = Normal result" and "didRender h cur chg prv = Normal u"
  shows "propertiesChanged h cur chg prv s =
     (Normal (),
      case resolveRenderComplete s of
        None \<Rightarrow> s\<lparr>trace := trace s @ cycle_events result s cur chg prv\<rparr>
      | Some q \<Rightarrow>
          s\<lparr>resolveRenderComplete := None, renderComplete_promise := None,
            trace := trace s @ cycle_events result s cur chg prv @ [ResolveCalled q True]\<rparr>)"
  using assms
  by (simp add: propertiesChanged_def call_resolveRenderComplete_def emit_def Let_def
      applyRender_def cycle_events_def split: option.splits)

lemma flushProperties_returns:
  assumes "shouldRender h cur chg prv = Normal b"
    and "render h cur = Normal result" and "didRender h cur chg prv = Normal u"
  shows "flushProperties h cur chg prv s =
     (Normal (),
      case resolveRenderComplete s of
        None \<Rightarrow> s\<lparr>isInvalid := False, isChanging := False,
                  trace := trace s @ flush_events b result s cur chg prv\<rparr>
      | Some q \<Rightarrow>
          s\<lparr>resolveRenderComplete := None, renderComplete_promise := None,
            isInvalid := False, isChanging := False,
            trace := trace s @ flush_events b result s cur chg prv @ [ResolveCalled q b]\<rparr>)"
  using assms
  by (simp add: flushProperties_def super_flushProperties_def Let_def flush_events_def
      shouldPropertiesChange_returns [OF assms(1)] propertiesChanged_returns [OF assms(2,3)]
      cycle_events_def split: option.splits)




lemma super_flush_frame:
  "isChanging (snd (super_flushProperties h cur chg prv s)) = isChanging s \<and>
   isInvalid (snd (super_flushProperties h cur chg prv s)) = isInvalid s"
  by (simp add: super_flushProperties_def shouldPropertiesChange_def propertiesChanged_def
      call_resolveRenderComplete_def applyRender_def emit_def Let_def
      split: completion.splits option.splits)

lemma requestRender_effect:
  "isInvalid (requestRender x) \<and> trace (requestRender x) = trace x @ [SuperInvalidateProperties]"
  by (simp add: requestRender_def invalidateProperties_def super_invalidateProperties_def emit_def)

lemma flush_calls_render:
  assumes "shouldRender h cur chg prv = Normal True"
  shows "RenderCalled cur \<in> set (drop (length (trace x)) (trace (snd (flushProperties h cur chg prv x))))"
  using assms
  by (simp add: flushProperties_def super_flushProperties_def shouldPropertiesChange_def
      propertiesChanged_def call_resolveRenderComplete_def applyRender_def emit_def Let_def
      split: completion.splits option.splits)


lemma renderComplete_returns_Some: "\<exists>p. fst (renderComplete s) = Some p"
  by (cases "renderComplete_promise s") (simp_all add: renderComplete_def Let_def emit_def)


lemma read_idem: "snd (renderComplete (snd (renderComplete s))) = snd (renderComplete s)"
  by (simp add: renderComplete_def emit_def Let_def)

lemma run_reads:
  "run h (replicate n ReadRenderComplete) (snd (renderComplete s)) = snd (renderComplete s)"
  by (induction n) (simp_all add: read_idem)

section \<open>The invariant of the completion signal\<close>



































section \<open>The completion signal\<close>







text \<open>
  C9. Reading \<open>renderComplete\<close> while a signal is held returns that signal and changes
  nothing. So a second read returns what the first returned and leaves the state as the
  first left it, and so does any number of further reads: no other signal is created
  before the held one is resolved (which is what clears the field).
\<close>

theorem renderComplete_read_twice:
  "(renderComplete_promise s \<noteq> None \<longrightarrow> renderComplete s = (renderComplete_promise s, s)) \<and>
   fst (renderComplete (snd (renderComplete s))) = fst (renderComplete s) \<and>
   snd (renderComplete (snd (renderComplete s))) = snd (renderComplete s) \<and>
   fst (renderComplete s) \<noteq> None \<and>
   run h (replicate n ReadRenderComplete) (snd (renderComplete s)) = snd (renderComplete s)"
proof -
  have "fst (renderComplete s) \<noteq> None"
    using renderComplete_returns_Some [of s] by auto
  moreover have "renderComplete_promise s \<noteq> None \<longrightarrow> renderComplete s = (renderComplete_promise s, s)"
    by (simp add: renderComplete_def)
  moreover have "fst (renderComplete (snd (renderComplete s))) = fst (renderComplete s)"
    by (simp add: renderComplete_def emit_def Let_def)
  ultimately show ?thesis by (simp add: read_idem run_reads)
qed

theorem renderComplete_read_twice_witness:
  "renderComplete_promise (snd (renderComplete (new_element ''my-element''))) = Some 0 \<and>
   renderComplete (snd (renderComplete (new_element ''my-element''))) =
     (Some 0, snd (renderComplete (new_element ''my-element''))) \<and>
   promiseCount (snd (renderComplete (snd (renderComplete (new_element ''my-element''))))) = 1"
proof -
  have p: "renderComplete_promise (snd (renderComplete (new_element ''my-element''))) = Some 0"
    by (simp add: renderComplete_def new_element_def emit_def Let_def)
  have c: "promiseCount (snd (renderComplete (new_element ''my-element''))) = 1"
    by (simp add: renderComplete_def new_element_def emit_def Let_def)
  from renderComplete_read_twice [of "snd (renderComplete (new_element ''my-element''))"] p c
  show ?thesis by simp
qed

section \<open>One property-change cycle\<close>

text \<open>
  C3. A call of \<open>_propertiesChanged\<close> whose hooks return performs, in this order and
  nothing else: the mixin's change notification; the call of \<open>_render(props)\<close>; if the
  result is non-empty and \<open>_root\<close> is set, one call of the template renderer with the
  result, the root and the element's \<open>localName\<close>; the call of \<open>_didRender\<close>; and, if a
  completion signal is pending, the call of its resolve function with \<open>true\<close>, after which
  both fields are null. A flush whose guard returns \<open>true\<close> is the guard's call followed by
  exactly these events.
\<close>

theorem propertiesChanged_performs_cycle:
  assumes r: "render h cur = Normal result" and d: "didRender h cur chg prv = Normal u"
  shows "fst (propertiesChanged h cur chg prv s) = Normal () \<and>
         trace (snd (propertiesChanged h cur chg prv s)) =
           trace s @ [SuperPropertiesChanged cur chg prv, RenderCalled cur] @
           (case result of
              None \<Rightarrow> []
            | Some t \<Rightarrow> (case root s of None \<Rightarrow> [] | Some n \<Rightarrow> [TemplateRendered t n (localName s)])) @
           [DidRenderCalled cur chg prv] @
           (case resolveRenderComplete s of None \<Rightarrow> [] | Some q \<Rightarrow> [ResolveCalled q True]) \<and>
         resolveRenderComplete (snd (propertiesChanged h cur chg prv s)) = None \<and>
         (resolveRenderComplete s \<noteq> None \<longrightarrow>
            renderComplete_promise (snd (propertiesChanged h cur chg prv s)) = None) \<and>
         (shouldRender h cur chg prv = Normal True \<longrightarrow>
            fst (flushProperties h cur chg prv s) = Normal () \<and>
            trace (snd (flushProperties h cur chg prv s)) =
              trace s @ [ShouldRenderCalled cur chg prv] @
              drop (length (trace s)) (trace (snd (propertiesChanged h cur chg prv s))))"
proof -
  have a: "fst (propertiesChanged h cur chg prv s) = Normal ()"
    and b: "trace (snd (propertiesChanged h cur chg prv s)) =
           trace s @ [SuperPropertiesChanged cur chg prv, RenderCalled cur] @
           (case result of
              None \<Rightarrow> []
            | Some t \<Rightarrow> (case root s of None \<Rightarrow> [] | Some n \<Rightarrow> [TemplateRendered t n (localName s)])) @
           [DidRenderCalled cur chg prv] @
           (case resolveRenderComplete s of None \<Rightarrow> [] | Some q \<Rightarrow> [ResolveCalled q True])"
    and c: "resolveRenderComplete (snd (propertiesChanged h cur chg prv s)) = None"
    and e: "resolveRenderComplete s \<noteq> None \<longrightarrow>
            renderComplete_promise (snd (propertiesChanged h cur chg prv s)) = None"
    by (simp_all add: propertiesChanged_returns [OF r d] cycle_events_def split: option.splits)
  have f: "shouldRender h cur chg prv = Normal True \<longrightarrow>
            fst (flushProperties h cur chg prv s) = Normal () \<and>
            trace (snd (flushProperties h cur chg prv s)) =
              trace s @ [ShouldRenderCalled cur chg prv] @
              drop (length (trace s)) (trace (snd (propertiesChanged h cur chg prv s)))"
  proof
    assume sr: "shouldRender h cur chg prv = Normal True"
    show "fst (flushProperties h cur chg prv s) = Normal () \<and>
            trace (snd (flushProperties h cur chg prv s)) =
              trace s @ [ShouldRenderCalled cur chg prv] @
              drop (length (trace s)) (trace (snd (propertiesChanged h cur chg prv s)))"
      by (simp add: flushProperties_returns [OF sr r d] b flush_events_def cycle_events_def
          split: option.splits)
  qed
  from a b c e f show ?thesis by blast
qed

theorem propertiesChanged_performs_cycle_witness:
  "render example_hooks [(''a'', VNum 1)] = Normal (Some ''<p>hello</p>'') \<and>
   didRender example_hooks [(''a'', VNum 1)] [(''a'', VNum 1)] [] = Normal () \<and>
   shouldRender example_hooks [(''a'', VNum 1)] [(''a'', VNum 1)] [] = Normal True \<and>
   trace (snd (propertiesChanged example_hooks [(''a'', VNum 1)] [(''a'', VNum 1)] []
     ((snd (renderComplete (new_element ''my-element'')))
        \<lparr>root := Some \<lparr>nodeId = 0, isShadowRoot = True, childTags = []\<rparr>\<rparr>))) =
     [PromiseCreated 0,
      SuperPropertiesChanged [(''a'', VNum 1)] [(''a'', VNum 1)] [],
      RenderCalled [(''a'', VNum 1)],
      TemplateRendered ''<p>hello</p>'' \<lparr>nodeId = 0, isShadowRoot = True, childTags = []\<rparr> ''my-element'',
      DidRenderCalled [(''a'', VNum 1)] [(''a'', VNum 1)] [],
      ResolveCalled 0 True]"
proof -
  have r: "render example_hooks [(''a'', VNum 1)] = Normal (Some ''<p>hello</p>'')"
    and d: "didRender example_hooks [(''a'', VNum 1)] [(''a'', VNum 1)] [] = Normal ()"
    and g: "shouldRender example_hooks [(''a'', VNum 1)] [(''a'', VNum 1)] [] = Normal True"
    by (simp_all add: example_hooks_def)
  have s: "snd (renderComplete (new_element ''my-element'')) =
      \<lparr>renderComplete_promise = Some 0, resolveRenderComplete = Some 0, isInvalid = False,
       isChanging = False, root = None, localName = ''my-element'', promiseCount = 1,
       microtasks = [CallResolveFalse], trace = [PromiseCreated 0]\<rparr>"
    by (simp add: renderComplete_def new_element_def emit_def Let_def)
  from propertiesChanged_performs_cycle [OF r d,
      of "(snd (renderComplete (new_element ''my-element'')))
            \<lparr>root := Some \<lparr>nodeId = 0, isShadowRoot = True, childTags = []\<rparr>\<rparr>"] r d g
  show ?thesis by (simp add: s)
qed

text \<open>
  C4. When \<open>_shouldRender\<close> returns \<open>false\<close>, \<open>_shouldPropertiesChange\<close> returns \<open>false\<close> and,
  if a completion signal is pending, has called its resolve function with \<open>false\<close> before
  it returns: the signal is settled with \<open>false\<close> in the state the guard leaves, both fields
  are null there, and no microtask was queued for it. The flush then ends without a
  further event, so neither \<open>_render\<close> nor the template renderer is called.
\<close>

theorem veto_resolves_false_in_guard:
  assumes sr: "shouldRender h cur chg prv = Normal False"
  shows "fst (shouldPropertiesChange h cur chg prv s) = Normal False \<and>
         trace (snd (shouldPropertiesChange h cur chg prv s)) =
           trace s @ [ShouldRenderCalled cur chg prv] @
           (case resolveRenderComplete s of None \<Rightarrow> [] | Some q \<Rightarrow> [ResolveCalled q False]) \<and>
         microtasks (snd (shouldPropertiesChange h cur chg prv s)) = microtasks s \<and>
         resolveRenderComplete (snd (shouldPropertiesChange h cur chg prv s)) = None \<and>
         (\<forall>q. resolveRenderComplete s = Some q \<and> settled q s = None \<longrightarrow>
              settled q (snd (shouldPropertiesChange h cur chg prv s)) = Some False) \<and>
         fst (flushProperties h cur chg prv s) = Normal () \<and>
         trace (snd (flushProperties h cur chg prv s)) =
           trace (snd (shouldPropertiesChange h cur chg prv s)) \<and>
         filter is_template_render (trace (snd (flushProperties h cur chg prv s))) =
           filter is_template_render (trace s)"
proof -
  note g = shouldPropertiesChange_returns [OF sr, of s]
  have fl: "flushProperties h cur chg prv s =
     (Normal (), (snd (shouldPropertiesChange h cur chg prv (s\<lparr>isChanging := True, isInvalid := False\<rparr>)))
        \<lparr>isChanging := False\<rparr>)"
    by (simp add: flushProperties_def super_flushProperties_def Let_def
        shouldPropertiesChange_returns [OF sr])
  have st: "\<forall>q. resolveRenderComplete s = Some q \<and> settled q s = None \<longrightarrow>
              settled q (snd (shouldPropertiesChange h cur chg prv s)) = Some False"
  proof (intro allI impI)
    fix q assume a: "resolveRenderComplete s = Some q \<and> settled q s = None"
    then have "resolutions q (trace s) = []" by (simp add: settled_None)
    then show "settled q (snd (shouldPropertiesChange h cur chg prv s)) = Some False"
      using a by (simp add: g settled_def resolutions_append resolutions_Cons resolutions_Nil)
  qed
  show ?thesis
    using st by (simp add: g fl shouldPropertiesChange_returns [OF sr] split: option.splits)
qed

theorem veto_resolves_false_in_guard_witness:
  "shouldRender example_hooks [] [] [] = Normal False \<and>
   resolveRenderComplete (snd (renderComplete (requestRender (new_element ''my-element'')))) = Some 0 \<and>
   settled 0 (snd (renderComplete (requestRender (new_element ''my-element'')))) = None \<and>
   settled 0 (snd (shouldPropertiesChange example_hooks [] [] []
     (snd (renderComplete (requestRender (new_element ''my-element'')))))) = Some False \<and>
   trace (snd (flushProperties example_hooks [] [] []
     (snd (renderComplete (requestRender (new_element ''my-element'')))))) =
     [SuperInvalidateProperties, PromiseCreated 0, ShouldRenderCalled [] [] [], ResolveCalled 0 False]"
proof -
  have g: "shouldRender example_hooks [] [] [] = Normal False" by (simp add: example_hooks_def)
  have s: "snd (renderComplete (requestRender (new_element ''my-element''))) =
      \<lparr>renderComplete_promise = Some 0, resolveRenderComplete = Some 0, isInvalid = True,
       isChanging = False, root = None, localName = ''my-element'', promiseCount = 1,
       microtasks = [], trace = [SuperInvalidateProperties, PromiseCreated 0]\<rparr>"
    by (simp add: renderComplete_def requestRender_def invalidateProperties_def
        super_invalidateProperties_def new_element_def emit_def Let_def)
  have p: "settled 0 (snd (renderComplete (requestRender (new_element ''my-element'')))) = None"
    by (simp add: s settled_def resolutions_Cons resolutions_Nil)
  from veto_resolves_false_in_guard [OF g,
      of "snd (renderComplete (requestRender (new_element ''my-element'')))"] g p
  show ?thesis by (simp add: s)
qed

text \<open>
  C2, as the code has it. \<open>_flushProperties\<close> sets \<open>__isChanging\<close> to true and
  \<open>__isInvalid\<close> to false and then delegates. It returns normally exactly if the
  delegated flush does, and then it has reset \<open>__isChanging\<close> to false. When the delegated
  flush throws, the throw leaves \<open>_flushProperties\<close> before the reset, which is not
  executed: the element is as the delegated flush left it, with \<open>__isChanging\<close> still
  true (the hooks being taken not to run a nested flush of their own).
\<close>

theorem flushProperties_isChanging:
  "fst (flushProperties h cur chg prv s) =
     fst (super_flushProperties h cur chg prv (s\<lparr>isChanging := True, isInvalid := False\<rparr>)) \<and>
   (is_Normal (fst (flushProperties h cur chg prv s)) \<longrightarrow>
      snd (flushProperties h cur chg prv s) =
        (snd (super_flushProperties h cur chg prv (s\<lparr>isChanging := True, isInvalid := False\<rparr>)))
          \<lparr>isChanging := False\<rparr> \<and>
      \<not> isChanging (snd (flushProperties h cur chg prv s))) \<and>
   (\<not> is_Normal (fst (flushProperties h cur chg prv s)) \<longrightarrow>
      snd (flushProperties h cur chg prv s) =
        snd (super_flushProperties h cur chg prv (s\<lparr>isChanging := True, isInvalid := False\<rparr>)) \<and>
      isChanging (snd (flushProperties h cur chg prv s)))"
proof -
  let ?r = "super_flushProperties h cur chg prv (s\<lparr>isChanging := True, isInvalid := False\<rparr>)"
  have fr: "isChanging (snd ?r)"
    using super_flush_frame [of h cur chg prv "s\<lparr>isChanging := True, isInvalid := False\<rparr>"]
    by simp
  obtain c s' where r: "?r = (c, s')" by (cases ?r)
  with fr have s': "isChanging s'" by simp
  show ?thesis
  proof (cases c)
    case (Normal u)
    then show ?thesis using r by (simp add: flushProperties_def Let_def)
  next
    case (Throw e)
    then show ?thesis using r s' by (simp add: flushProperties_def Let_def)
  qed
qed

theorem flushProperties_isChanging_witness:
  "is_Normal (fst (flushProperties example_hooks [] [(''a'', VNum 1)] [] (new_element ''my-element''))) \<and>
   \<not> isChanging (snd (flushProperties example_hooks [] [(''a'', VNum 1)] [] (new_element ''my-element''))) \<and>
   \<not> is_Normal (fst (flushProperties default_hooks [] [] [] (new_element ''my-element''))) \<and>
   isChanging (snd (flushProperties default_hooks [] [] [] (new_element ''my-element'')))"
  using flushProperties_isChanging [of example_hooks "[]" "[(''a'', VNum 1)]" "[]" "new_element ''my-element''"]
    flushProperties_isChanging [of default_hooks "[]" "[]" "[]" "new_element ''my-element''"]
  by (simp add: flushProperties_def super_flushProperties_def shouldPropertiesChange_def
      propertiesChanged_def default_hooks_def example_hooks_def new_element_def emit_def Let_def)

text \<open>
  C2 as stated fails: a class that does not override \<open>_render\<close> throws in the delegated
  flush, and \<open>__isChanging\<close> is true after the call.
\<close>

theorem flushProperties_throw_counterexample:
  "fst (flushProperties default_hooks [] [] [] (new_element ''my-element'')) =
     Throw (Error ''_render() not implemented'') \<and>
   isChanging (snd (flushProperties default_hooks [] [] [] (new_element ''my-element'')))"
  by (simp add: flushProperties_def super_flushProperties_def shouldPropertiesChange_def
      propertiesChanged_def default_hooks_def new_element_def emit_def Let_def)

section \<open>Own properties: the two loops of updateObjectMembers\<close>

lemma names_iff: "k \<in> set (getOwnPropertyNames obj) \<longleftrightarrow> getOwnPropertyDescriptor obj k \<noteq> None"
  by (simp add: getOwnPropertyNames_def getOwnPropertyDescriptor_def map_of_eq_None_iff)

lemma set_Set_of_aux: "set (foldl (\<lambda>acc x. if x \<in> set acc then acc else acc @ [x]) acc xs) = set acc \<union> set xs"
  by (induction xs arbitrary: acc) auto

lemma set_Set_of: "set (Set_of xs) = set xs"
  by (simp add: Set_of_def set_Set_of_aux)

lemma defineProperty_lookup:
  "getOwnPropertyDescriptor (snd (defineProperty obj k d)) k' =
     (if k' = k \<and> is_Normal (fst (defineProperty obj k d)) then Some d
      else getOwnPropertyDescriptor obj k')"
  by (simp add: defineProperty_def getOwnPropertyDescriptor_def update_conv' split: option.splits)

lemma defineProperty_extensible:
  "extensible (snd (defineProperty obj k d)) = extensible obj"
  by (simp add: defineProperty_def split: option.splits)

lemma compatible_configurable: "configurable d \<Longrightarrow> \<not> compatible cur d"
  by (cases cur; cases d) simp_all

lemma defineProperty_normal_iff:
  "configurable d \<Longrightarrow>
   is_Normal (fst (defineProperty obj k d)) \<longleftrightarrow>
     (case getOwnPropertyDescriptor obj k of None \<Rightarrow> extensible obj | Some cur \<Rightarrow> configurable cur)"
  by (simp add: defineProperty_def compatible_configurable split: option.splits)

lemma defineProperty_same:
  "getOwnPropertyDescriptor obj k = Some d \<Longrightarrow> configurable d \<Longrightarrow>
   defineProperty obj k d = (Normal (), obj)"
  by (simp add: defineProperty_def getOwnPropertyDescriptor_def update_triv)

lemma defineProperty_throw_state:
  "fst (defineProperty obj k d) = Throw e \<Longrightarrow> snd (defineProperty obj k d) = obj"
  by (auto simp: defineProperty_def split: option.splits if_splits)

lemma deleteProperty_lookup:
  "getOwnPropertyDescriptor (snd (deleteProperty obj k)) k' =
     (if k' = k \<and> (case getOwnPropertyDescriptor obj k of None \<Rightarrow> False | Some cur \<Rightarrow> configurable cur)
      then None else getOwnPropertyDescriptor obj k')"
  by (simp add: deleteProperty_def getOwnPropertyDescriptor_def delete_conv' split: option.splits)

lemma deleteProperty_fixed:
  "(case getOwnPropertyDescriptor obj k of None \<Rightarrow> True | Some cur \<Rightarrow> \<not> configurable cur) \<Longrightarrow>
   snd (deleteProperty obj k) = obj"
  by (simp add: deleteProperty_def split: option.splits)

lemma copyMembers_lookup:
  "getOwnPropertyDescriptor (snd (copyMembers names n t)) k = getOwnPropertyDescriptor t k \<or>
   (k \<in> set names \<and> (\<exists>d. getOwnPropertyDescriptor n k = Some d \<and> configurable d \<and>
      getOwnPropertyDescriptor (snd (copyMembers names n t)) k = Some d))"
proof (induction names arbitrary: t)
  case Nil
  then show ?case by simp
next
  case (Cons k' rest)
  show ?case
  proof (cases "getOwnPropertyDescriptor n k'")
    case None
    then show ?thesis using Cons.IH [of t] by auto
  next
    case (Some d)
    show ?thesis
    proof (cases "configurable d")
      case False
      then show ?thesis using Some Cons.IH [of t] by auto
    next
      case True
      obtain c t' where dp: "defineProperty t k' d = (c, t')" by (cases "defineProperty t k' d")
      show ?thesis
      proof (cases c)
        case (Throw e)
        then have "t' = t" using dp defineProperty_throw_state [of t k' d e] by simp
        then show ?thesis using Some True dp Throw by simp
      next
        case (Normal u)
        have lk: "getOwnPropertyDescriptor t' k = (if k = k' then Some d else getOwnPropertyDescriptor t k)"
          using defineProperty_lookup [of t k' d k] dp Normal by simp
        have eq: "copyMembers (k' # rest) n t = copyMembers rest n t'"
          using Some True dp Normal by simp
        from Cons.IH [of t'] show ?thesis
          unfolding eq using lk Some True by (cases "k = k'") auto
      qed
    qed
  qed
qed

lemma copyMembers_keeps:
  "getOwnPropertyDescriptor t k = Some d \<Longrightarrow> getOwnPropertyDescriptor n k = Some d \<Longrightarrow>
   getOwnPropertyDescriptor (snd (copyMembers names n t)) k = Some d"
  using copyMembers_lookup [of names n t k] by auto

lemma copyMembers_untouched:
  "(case getOwnPropertyDescriptor n k of None \<Rightarrow> True | Some d \<Rightarrow> \<not> configurable d) \<Longrightarrow>
   getOwnPropertyDescriptor (snd (copyMembers names n t)) k = getOwnPropertyDescriptor t k"
  using copyMembers_lookup [of names n t k] by (auto split: option.splits)

lemma copyMembers_copied:
  assumes "is_Normal (fst (copyMembers names n t))" and "k \<in> set names"
    and "getOwnPropertyDescriptor n k = Some d" and "configurable d"
  shows "getOwnPropertyDescriptor (snd (copyMembers names n t)) k = Some d"
  using assms
proof (induction names arbitrary: t)
  case Nil
  then show ?case by simp
next
  case (Cons k' rest)
  show ?case
  proof (cases "getOwnPropertyDescriptor n k'")
    case None
    then have "k \<noteq> k'" using Cons.prems(3) by auto
    then show ?thesis using None Cons by simp
  next
    case (Some d')
    show ?thesis
    proof (cases "configurable d'")
      case False
      then have "k \<noteq> k'" using Cons.prems(3,4) Some by auto
      then show ?thesis using Some False Cons by simp
    next
      case True
      obtain c t' where dp: "defineProperty t k' d' = (c, t')" by (cases "defineProperty t k' d'")
      show ?thesis
      proof (cases c)
        case (Throw e)
        then show ?thesis using Cons.prems(1) Some True dp by simp
      next
        case (Normal u)
        have eq: "copyMembers (k' # rest) n t = copyMembers rest n t'"
          using Some True dp Normal by simp
        show ?thesis
        proof (cases "k = k'")
          case True
          then have "d' = d" using Some Cons.prems(3) by simp
          then have "getOwnPropertyDescriptor t' k = Some d"
            using defineProperty_lookup [of t k' d' k] dp Normal True by simp
          then show ?thesis unfolding eq using Cons.prems(3) by (rule copyMembers_keeps)
        next
          case False
          then have "k \<in> set rest" using Cons.prems(2) by simp
          then show ?thesis
            unfolding eq using Cons.IH [of t'] Cons.prems(1,3,4) eq by simp
        qed
      qed
    qed
  qed
qed

lemma copyMembers_fixed:
  assumes "\<forall>k\<in>set names. \<forall>d. getOwnPropertyDescriptor n k = Some d \<and> configurable d \<longrightarrow>
             getOwnPropertyDescriptor t k = Some d"
  shows "copyMembers names n t = (Normal (), t)"
  using assms
proof (induction names)
  case Nil
  then show ?case by simp
next
  case (Cons k rest)
  then have ih: "copyMembers rest n t = (Normal (), t)" by simp
  show ?case
  proof (cases "getOwnPropertyDescriptor n k")
    case None
    then show ?thesis using ih by simp
  next
    case (Some d)
    show ?thesis
    proof (cases "configurable d")
      case False
      then show ?thesis using Some ih by simp
    next
      case True
      then have "getOwnPropertyDescriptor t k = Some d" using Cons.prems Some by simp
      then have "defineProperty t k d = (Normal (), t)" using True by (rule defineProperty_same)
      then show ?thesis using Some True ih by simp
    qed
  qed
qed

lemma copyMembers_idem:
  "copyMembers names n (snd (copyMembers names n t)) = copyMembers names n t"
proof (induction names arbitrary: t)
  case Nil
  then show ?case by simp
next
  case (Cons k rest)
  show ?case
  proof (cases "getOwnPropertyDescriptor n k")
    case None
    then show ?thesis using Cons.IH by simp
  next
    case (Some d)
    show ?thesis
    proof (cases "configurable d")
      case False
      then show ?thesis using Some Cons.IH by simp
    next
      case True
      obtain c t' where dp: "defineProperty t k d = (c, t')" by (cases "defineProperty t k d")
      show ?thesis
      proof (cases c)
        case (Throw e)
        then have "t' = t" using dp defineProperty_throw_state [of t k d e] by simp
        then show ?thesis using Some True dp Throw by simp
      next
        case (Normal u)
        have eq: "copyMembers (k # rest) n t = copyMembers rest n t'"
          using Some True dp Normal by simp
        let ?f = "snd (copyMembers rest n t')"
        have "getOwnPropertyDescriptor t' k = Some d"
          using defineProperty_lookup [of t k d k] dp Normal by simp
        then have "getOwnPropertyDescriptor ?f k = Some d" using Some by (rule copyMembers_keeps)
        then have "defineProperty ?f k d = (Normal (), ?f)" using True by (rule defineProperty_same)
        then have "copyMembers (k # rest) n ?f = copyMembers rest n ?f"
          using Some True by simp
        then show ?thesis unfolding eq using Cons.IH [of t'] by simp
      qed
    qed
  qed
qed

lemma copyMembers_normal_iff:
  "is_Normal (fst (copyMembers names n t)) \<longleftrightarrow>
     list_all (\<lambda>k. case getOwnPropertyDescriptor n k of
                     None \<Rightarrow> True
                   | Some d \<Rightarrow>
                       \<not> configurable d \<or>
                       (case getOwnPropertyDescriptor t k of
                          None \<Rightarrow> extensible t
                        | Some cur \<Rightarrow> configurable cur)) names"
proof (induction names arbitrary: t)
  case Nil
  then show ?case by simp
next
  case (Cons k rest)
  show ?case
  proof (cases "getOwnPropertyDescriptor n k")
    case None
    then show ?thesis using Cons.IH [of t] by simp
  next
    case (Some d)
    show ?thesis
    proof (cases "configurable d")
      case False
      then show ?thesis using Some Cons.IH [of t] by simp
    next
      case True
      obtain c t' where dp: "defineProperty t k d = (c, t')" by (cases "defineProperty t k d")
      show ?thesis
      proof (cases c)
        case (Throw e)
        then show ?thesis
          using Some True dp defineProperty_normal_iff [OF True, of t k] by simp
      next
        case (Normal u)
        have ok: "case getOwnPropertyDescriptor t k of None \<Rightarrow> extensible t | Some cur \<Rightarrow> configurable cur"
          using dp Normal defineProperty_normal_iff [OF True, of t k] by simp
        have lk: "\<And>k'. getOwnPropertyDescriptor t' k' = (if k' = k then Some d else getOwnPropertyDescriptor t k')"
          using defineProperty_lookup [of t k d] dp Normal by simp
        have ex: "extensible t' = extensible t"
          using defineProperty_extensible [of t k d] dp by simp
        have same: "\<And>k'. (case getOwnPropertyDescriptor n k' of
                     None \<Rightarrow> True
                   | Some d \<Rightarrow>
                       \<not> configurable d \<or>
                       (case getOwnPropertyDescriptor t' k' of
                          None \<Rightarrow> extensible t'
                        | Some cur \<Rightarrow> configurable cur)) =
              (case getOwnPropertyDescriptor n k' of
                     None \<Rightarrow> True
                   | Some d \<Rightarrow>
                       \<not> configurable d \<or>
                       (case getOwnPropertyDescriptor t k' of
                          None \<Rightarrow> extensible t
                        | Some cur \<Rightarrow> configurable cur))"
          using ok True Some by (auto simp: lk ex split: option.splits)
        have eq: "copyMembers (k # rest) n t = copyMembers rest n t'"
          using Some True dp Normal by simp
        show ?thesis
          unfolding eq Cons.IH [of t'] using Some True ok by (simp add: same)
      qed
    qed
  qed
qed

lemma deleteMembers_lookup:
  "getOwnPropertyDescriptor (deleteMembers cs ns t) k =
     (if k \<in> set cs \<and> k \<notin> set ns \<and>
         (case getOwnPropertyDescriptor t k of None \<Rightarrow> False | Some cur \<Rightarrow> configurable cur)
      then None else getOwnPropertyDescriptor t k)"
proof (induction cs arbitrary: t)
  case Nil
  then show ?case by simp
next
  case (Cons c cs)
  show ?case
  proof (cases "c \<in> set ns")
    case True
    then show ?thesis using Cons.IH [of t] by auto
  next
    case False
    then have eq: "deleteMembers (c # cs) ns t = deleteMembers cs ns (snd (deleteProperty t c))"
      by simp
    show ?thesis
      unfolding eq Cons.IH [of "snd (deleteProperty t c)"]
      by (auto simp: deleteProperty_lookup False split: option.splits)
  qed
qed

lemma deleteMembers_fixed:
  assumes "\<forall>k\<in>set cs. k \<notin> set ns \<longrightarrow>
             (case getOwnPropertyDescriptor t k of None \<Rightarrow> True | Some cur \<Rightarrow> \<not> configurable cur)"
  shows "deleteMembers cs ns t = t"
  using assms by (induction cs) (simp_all add: deleteProperty_fixed)

lemma updateObjectMembers_normal:
  assumes "is_Normal (fst (updateObjectMembers target source))"
  shows "is_Normal (fst (copyMembers (getOwnPropertyNames source) source target)) \<and>
         snd (updateObjectMembers target source) =
           deleteMembers (Set_of (getOwnPropertyNames target)) (Set_of (getOwnPropertyNames source))
             (snd (copyMembers (getOwnPropertyNames source) source target))"
proof -
  obtain c t' where cp: "copyMembers (getOwnPropertyNames source) source target = (c, t')"
    by (cases "copyMembers (getOwnPropertyNames source) source target")
  show ?thesis
    using assms cp by (cases c) (simp_all add: updateObjectMembers_def Let_def)
qed

lemma updateObjectMembers_throw:
  assumes "\<not> is_Normal (fst (updateObjectMembers target source))"
  shows "updateObjectMembers target source = copyMembers (getOwnPropertyNames source) source target"
proof -
  obtain c t' where cp: "copyMembers (getOwnPropertyNames source) source target = (c, t')"
    by (cases "copyMembers (getOwnPropertyNames source) source target")
  show ?thesis
    using assms cp by (cases c) (simp_all add: updateObjectMembers_def Let_def)
qed

lemma updateObjectMembers_completion:
  "fst (updateObjectMembers target source) =
   fst (copyMembers (getOwnPropertyNames source) source target)"
proof -
  obtain c t' where cp: "copyMembers (getOwnPropertyNames source) source target = (c, t')"
    by (cases "copyMembers (getOwnPropertyNames source) source target")
  show ?thesis
    using cp by (cases c) (simp_all add: updateObjectMembers_def Let_def)
qed

lemma updateObjectMembers_normal_iff:
  "is_Normal (fst (updateObjectMembers target source)) \<longleftrightarrow> definable target source"
  by (simp add: updateObjectMembers_completion copyMembers_normal_iff definable_def)

lemma updateObjectMembers_copied:
  assumes n: "is_Normal (fst (updateObjectMembers target source))"
    and s: "getOwnPropertyDescriptor source k = Some d" and c: "configurable d"
  shows "getOwnPropertyDescriptor (snd (updateObjectMembers target source)) k = Some d"
proof -
  from s have k: "k \<in> set (getOwnPropertyNames source)" by (simp add: names_iff)
  from updateObjectMembers_normal [OF n]
  have cn: "is_Normal (fst (copyMembers (getOwnPropertyNames source) source target))"
    and eq: "snd (updateObjectMembers target source) =
           deleteMembers (Set_of (getOwnPropertyNames target)) (Set_of (getOwnPropertyNames source))
             (snd (copyMembers (getOwnPropertyNames source) source target))"
    by simp_all
  show ?thesis
    unfolding eq deleteMembers_lookup
    using copyMembers_copied [OF cn k s c] k by (simp add: set_Set_of)
qed

lemma updateObjectMembers_removed:
  assumes n: "is_Normal (fst (updateObjectMembers target source))"
    and t: "getOwnPropertyDescriptor target k = Some d"
    and s: "getOwnPropertyDescriptor source k = None"
  shows "getOwnPropertyDescriptor (snd (updateObjectMembers target source)) k =
           (if configurable d then None else Some d)"
proof -
  from s have k: "k \<notin> set (getOwnPropertyNames source)" by (simp add: names_iff)
  from t have k': "k \<in> set (getOwnPropertyNames target)" by (simp add: names_iff)
  from updateObjectMembers_normal [OF n]
  have eq: "snd (updateObjectMembers target source) =
           deleteMembers (Set_of (getOwnPropertyNames target)) (Set_of (getOwnPropertyNames source))
             (snd (copyMembers (getOwnPropertyNames source) source target))"
    by simp
  have "getOwnPropertyDescriptor (snd (copyMembers (getOwnPropertyNames source) source target)) k = Some d"
    using copyMembers_untouched [of source k "getOwnPropertyNames source" target] s t by simp
  then show ?thesis
    unfolding eq deleteMembers_lookup using k k' by (simp add: set_Set_of)
qed

lemma updateObjectMembers_source_name:
  assumes s: "getOwnPropertyDescriptor source k = Some d"
  shows "getOwnPropertyDescriptor (snd (updateObjectMembers target source)) k =
           getOwnPropertyDescriptor (snd (copyMembers (getOwnPropertyNames source) source target)) k"
proof (cases "is_Normal (fst (updateObjectMembers target source))")
  case True
  from s have k: "k \<in> set (getOwnPropertyNames source)" by (simp add: names_iff)
  from updateObjectMembers_normal [OF True] show ?thesis
    using k by (simp add: deleteMembers_lookup set_Set_of)
next
  case False
  then show ?thesis using updateObjectMembers_throw [of target source] by simp
qed

lemma updateObjectMembers_fixed:
  assumes "copyMembers (getOwnPropertyNames source) source x = (Normal (), x)"
    and "deleteMembers (Set_of (getOwnPropertyNames x)) (Set_of (getOwnPropertyNames source)) x = x"
  shows "updateObjectMembers x source = (Normal (), x)"
  using assms by (simp add: updateObjectMembers_def Let_def)

lemma updateObjectMembers_rethrow:
  assumes "copyMembers (getOwnPropertyNames source) source x = (Throw e, x')"
  shows "updateObjectMembers x source = (Throw e, x')"
  using assms by (simp add: updateObjectMembers_def Let_def)

lemma updateObjectMembers_idem:
  "updateObjectMembers (snd (updateObjectMembers target source)) source =
   updateObjectMembers target source"
proof (cases "is_Normal (fst (updateObjectMembers target source))")
  case False
  let ?names = "getOwnPropertyNames source"
  have eq: "updateObjectMembers target source = copyMembers ?names source target"
    using False by (rule updateObjectMembers_throw)
  have "copyMembers ?names source (snd (copyMembers ?names source target)) =
        copyMembers ?names source target" by (rule copyMembers_idem)
  moreover obtain e t' where "copyMembers ?names source target = (Throw e, t')"
    using False eq by (cases "copyMembers ?names source target"; cases "fst (copyMembers ?names source target)") auto
  ultimately show ?thesis
    unfolding eq using updateObjectMembers_rethrow [of source t' e t'] by simp
next
  case True
  let ?names = "getOwnPropertyNames source"
  let ?r = "snd (updateObjectMembers target source)"
  let ?c = "snd (copyMembers ?names source target)"
  from updateObjectMembers_normal [OF True]
  have r: "?r = deleteMembers (Set_of (getOwnPropertyNames target)) (Set_of ?names) ?c" by simp
  have copied: "\<forall>k\<in>set ?names. \<forall>d. getOwnPropertyDescriptor source k = Some d \<and> configurable d \<longrightarrow>
             getOwnPropertyDescriptor ?r k = Some d"
    using updateObjectMembers_copied [OF True] by blast
  then have c2: "copyMembers ?names source ?r = (Normal (), ?r)" by (rule copyMembers_fixed)
  have left: "\<forall>k\<in>set (Set_of (getOwnPropertyNames ?r)). k \<notin> set (Set_of ?names) \<longrightarrow>
             (case getOwnPropertyDescriptor ?r k of None \<Rightarrow> True | Some cur \<Rightarrow> \<not> configurable cur)"
  proof (intro ballI impI)
    fix k assume "k \<in> set (Set_of (getOwnPropertyNames ?r))" and "k \<notin> set (Set_of ?names)"
    then have kr: "getOwnPropertyDescriptor ?r k \<noteq> None" and ks: "k \<notin> set ?names"
      by (simp_all add: set_Set_of names_iff)
    from ks have sn: "getOwnPropertyDescriptor source k = None" by (simp add: names_iff)
    have ck: "getOwnPropertyDescriptor ?c k = getOwnPropertyDescriptor target k"
      using copyMembers_untouched [of source k ?names target] sn by simp
    show "case getOwnPropertyDescriptor ?r k of None \<Rightarrow> True | Some cur \<Rightarrow> \<not> configurable cur"
      using kr ks unfolding r deleteMembers_lookup ck
      by (auto simp: set_Set_of names_iff split: option.splits if_splits)
  qed
  then have d2: "deleteMembers (Set_of (getOwnPropertyNames ?r)) (Set_of ?names) ?r = ?r"
    by (rule deleteMembers_fixed)
  have "updateObjectMembers ?r source = (Normal (), ?r)"
    using c2 d2 by (rule updateObjectMembers_fixed)
  moreover have "updateObjectMembers target source = (Normal (), ?r)"
    using True by (cases "updateObjectMembers target source"; cases "fst (updateObjectMembers target source)") auto
  ultimately show ?thesis by simp
qed

lemma example_definable: "definable example_old example_new"
  by (simp add: definable_def example_old_def example_new_def getOwnPropertyNames_def
      getOwnPropertyDescriptor_def)

subsection \<open>Metadata stored over migrated members\<close>

lemma update_commute_present:
  "k \<noteq> k' \<Longrightarrow> k \<in> fst ` set xs \<Longrightarrow>
   AList.update k v (AList.update k' v' xs) = AList.update k' v' (AList.update k v xs)"
  by (induction xs) auto

lemma update_twice: "AList.update k v (AList.update k v' xs) = AList.update k v xs"
  by (induction xs) auto

lemma defineProperty_present:
  assumes "getOwnPropertyDescriptor ob k = Some c" and "configurable c"
  shows "defineProperty ob k d = (Normal (), ob\<lparr>properties := AList.update k d (properties ob)\<rparr>)"
  using assms by (simp add: defineProperty_def)

lemma defineProperty_names:
  assumes "getOwnPropertyDescriptor ob k = Some c"
  shows "getOwnPropertyNames (snd (defineProperty ob k d)) = getOwnPropertyNames ob"
proof -
  from assms have "k \<in> set (map fst (properties ob))"
    using names_iff [of k ob] by (simp add: getOwnPropertyNames_def)
  then show ?thesis
    using assms by (simp add: defineProperty_def getOwnPropertyNames_def update_keys)
qed

lemma copyMembers_after_define:
  assumes "is_Normal (fst (copyMembers names n y))"
    and "k \<in> set names" and "getOwnPropertyDescriptor n k = Some d" and "configurable d"
    and "getOwnPropertyDescriptor y k = Some c" and "configurable c" and "configurable v"
  shows "copyMembers names n (snd (defineProperty y k v)) = copyMembers names n y"
  using assms
proof (induction names arbitrary: y c)
  case Nil
  then show ?case by simp
next
  case (Cons k' rest)
  have dk: "defineProperty y k v = (Normal (), y\<lparr>properties := AList.update k v (properties y)\<rparr>)"
    using Cons.prems(5,6) by (rule defineProperty_present)
  let ?y' = "y\<lparr>properties := AList.update k v (properties y)\<rparr>"
  have lk: "\<And>j. getOwnPropertyDescriptor ?y' j = (if j = k then Some v else getOwnPropertyDescriptor y j)"
    by (simp add: getOwnPropertyDescriptor_def update_conv')
  show ?case
  proof (cases "k' = k")
    case True
    have "defineProperty ?y' k d = (Normal (), ?y'\<lparr>properties := AList.update k d (properties ?y')\<rparr>)"
      using lk [of k] Cons.prems(7) by (simp add: defineProperty_present)
    moreover have "defineProperty y k d = (Normal (), y\<lparr>properties := AList.update k d (properties y)\<rparr>)"
      using Cons.prems(5,6) by (rule defineProperty_present)
    ultimately show ?thesis
      using True Cons.prems(3,4) dk by (simp add: update_twice)
  next
    case False
    then have kr: "k \<in> set rest" using Cons.prems(2) by simp
    show ?thesis
    proof (cases "getOwnPropertyDescriptor n k'")
      case None
      then show ?thesis using Cons.IH [OF _ kr Cons.prems(3,4,5,6,7)] Cons.prems(1) by simp
    next
      case (Some d')
      show ?thesis
      proof (cases "configurable d'")
        case nc: False
        then show ?thesis using Some Cons.IH [OF _ kr Cons.prems(3,4,5,6,7)] Cons.prems(1) by simp
      next
        case cf: True
        obtain r y1 where dp: "defineProperty y k' d' = (r, y1)" by (cases "defineProperty y k' d'")
        with Cons.prems(1) Some cf obtain u where r: "r = Normal u"
          by (cases r) simp_all
        have y1: "y1 = y\<lparr>properties := AList.update k' d' (properties y)\<rparr>"
          using dp r by (auto simp: defineProperty_def split: option.splits if_splits)
        have ok: "(case getOwnPropertyDescriptor y k' of None \<Rightarrow> extensible y | Some cur \<Rightarrow> configurable cur)"
          using defineProperty_normal_iff [OF cf, of y k'] dp r by simp
        have dp': "defineProperty ?y' k' d' = (Normal (), ?y'\<lparr>properties := AList.update k' d' (properties ?y')\<rparr>)"
          using ok False lk [of k'] cf
          by (auto simp: defineProperty_def split: option.splits)
        have kin: "k \<in> fst ` set (properties y)"
          using Cons.prems(5) names_iff [of k y] by (simp add: getOwnPropertyNames_def)
        have comm: "?y'\<lparr>properties := AList.update k' d' (properties ?y')\<rparr> =
                    y1\<lparr>properties := AList.update k v (properties y1)\<rparr>"
          using update_commute_present [of k k' "properties y" v d'] False kin by (simp add: y1)
        have l1: "getOwnPropertyDescriptor y1 k = Some c"
          using False Cons.prems(5) by (simp add: y1 getOwnPropertyDescriptor_def update_conv')
        have d1: "defineProperty y1 k v = (Normal (), y1\<lparr>properties := AList.update k v (properties y1)\<rparr>)"
          using l1 Cons.prems(6) by (rule defineProperty_present)
        have n1: "is_Normal (fst (copyMembers rest n y1))"
          using Cons.prems(1) Some cf dp r by simp
        from Cons.IH [OF n1 kr Cons.prems(3,4) l1 Cons.prems(6,7)]
        have "copyMembers rest n (y1\<lparr>properties := AList.update k v (properties y1)\<rparr>) = copyMembers rest n y1"
          using d1 by simp
        then show ?thesis
          using Some cf dp r dp' comm dk by simp
      qed
    qed
  qed
qed

lemma storeMetadata_lookup:
  assumes "is_Normal (fst (storeMetadata ms ob))"
  shows "(k \<in> fst ` set ms \<longrightarrow>
            (\<exists>v. getOwnPropertyDescriptor (snd (storeMetadata ms ob)) k = Some (DataDescriptor v True True True))) \<and>
         (k \<notin> fst ` set ms \<longrightarrow>
            getOwnPropertyDescriptor (snd (storeMetadata ms ob)) k = getOwnPropertyDescriptor ob k)"
  using assms
proof (induction ms arbitrary: ob)
  case Nil
  then show ?case by simp
next
  case (Cons a ms)
  obtain j v where a: "a = (j, v)" by (cases a)
  obtain r ob1 where dp: "defineProperty ob j (DataDescriptor v True True True) = (r, ob1)"
    by (cases "defineProperty ob j (DataDescriptor v True True True)")
  with Cons.prems a obtain u where r: "r = Normal u" by (cases r) simp_all
  have eq: "storeMetadata (a # ms) ob = storeMetadata ms ob1" using a dp r by simp
  have lk: "\<And>i. getOwnPropertyDescriptor ob1 i =
              (if i = j then Some (DataDescriptor v True True True) else getOwnPropertyDescriptor ob i)"
    using defineProperty_lookup [of ob j "DataDescriptor v True True True"] dp r by simp
  from Cons.prems have n: "is_Normal (fst (storeMetadata ms ob1))" by (simp add: eq)
  from Cons.IH [OF n] show ?case
    unfolding eq using a lk by auto
qed

lemma storeMetadata_present:
  assumes "\<forall>k\<in>fst ` set ms. \<exists>c. getOwnPropertyDescriptor ob k = Some c \<and> configurable c"
  shows "is_Normal (fst (storeMetadata ms ob)) \<and>
         getOwnPropertyNames (snd (storeMetadata ms ob)) = getOwnPropertyNames ob"
  using assms
proof (induction ms arbitrary: ob)
  case Nil
  then show ?case by simp
next
  case (Cons a ms)
  obtain j v where a: "a = (j, v)" by (cases a)
  from Cons.prems a obtain c where c: "getOwnPropertyDescriptor ob j = Some c" "configurable c"
    by auto
  let ?ob1 = "ob\<lparr>properties := AList.update j (DataDescriptor v True True True) (properties ob)\<rparr>"
  have dp: "defineProperty ob j (DataDescriptor v True True True) = (Normal (), ?ob1)"
    using c by (rule defineProperty_present)
  have eq: "storeMetadata (a # ms) ob = storeMetadata ms ?ob1" using a dp by simp
  have nm: "getOwnPropertyNames ?ob1 = getOwnPropertyNames ob"
    using defineProperty_names [OF c(1), of "DataDescriptor v True True True"] dp by simp
  have "\<forall>k\<in>fst ` set ms. \<exists>c. getOwnPropertyDescriptor ?ob1 k = Some c \<and> configurable c"
    using Cons.prems by (auto simp: getOwnPropertyDescriptor_def update_conv')
  from Cons.IH [OF this] show ?case unfolding eq using nm by simp
qed

lemma copyMembers_after_store:
  assumes "is_Normal (fst (copyMembers names n y))"
    and "\<forall>k\<in>fst ` set ms. k \<in> set names \<and>
           (\<exists>d. getOwnPropertyDescriptor n k = Some d \<and> configurable d) \<and>
           (\<exists>c. getOwnPropertyDescriptor y k = Some c \<and> configurable c)"
  shows "copyMembers names n (snd (storeMetadata ms y)) = copyMembers names n y"
  using assms
proof (induction ms arbitrary: y)
  case Nil
  then show ?case by simp
next
  case (Cons a ms)
  obtain j v where a: "a = (j, v)" by (cases a)
  from Cons.prems(2) a obtain d c where j: "j \<in> set names"
    and d: "getOwnPropertyDescriptor n j = Some d" "configurable d"
    and c: "getOwnPropertyDescriptor y j = Some c" "configurable c"
    by auto
  let ?y1 = "y\<lparr>properties := AList.update j (DataDescriptor v True True True) (properties y)\<rparr>"
  have dp: "defineProperty y j (DataDescriptor v True True True) = (Normal (), ?y1)"
    using c by (rule defineProperty_present)
  have eq: "storeMetadata (a # ms) y = storeMetadata ms ?y1" using a dp by simp
  have c1: "copyMembers names n ?y1 = copyMembers names n y"
    using copyMembers_after_define [OF Cons.prems(1) j d c, of "DataDescriptor v True True True"] dp
    by simp
  have n1: "is_Normal (fst (copyMembers names n ?y1))" using c1 Cons.prems(1) by simp
  have "\<forall>k\<in>fst ` set ms. k \<in> set names \<and>
           (\<exists>d. getOwnPropertyDescriptor n k = Some d \<and> configurable d) \<and>
           (\<exists>c. getOwnPropertyDescriptor ?y1 k = Some c \<and> configurable c)"
    using Cons.prems(2) by (auto simp: getOwnPropertyDescriptor_def update_conv')
  from Cons.IH [OF n1 this] show ?case unfolding eq using c1 by simp
qed

text \<open>What a normal return of updateObjectMembers leaves is a fixed point of both loops.\<close>

lemma updateObjectMembers_result_fixed:
  assumes n: "is_Normal (fst (updateObjectMembers target source))"
  shows "copyMembers (getOwnPropertyNames source) source (snd (updateObjectMembers target source)) =
           (Normal (), snd (updateObjectMembers target source)) \<and>
         deleteMembers (Set_of (getOwnPropertyNames (snd (updateObjectMembers target source))))
           (Set_of (getOwnPropertyNames source)) (snd (updateObjectMembers target source)) =
           snd (updateObjectMembers target source)"
proof -
  let ?x = "snd (updateObjectMembers target source)"
  have a: "copyMembers (getOwnPropertyNames source) source ?x = (Normal (), ?x)"
    by (rule copyMembers_fixed) (use updateObjectMembers_copied [OF n] in blast)
  have b: "\<forall>k\<in>set (Set_of (getOwnPropertyNames ?x)). k \<notin> set (Set_of (getOwnPropertyNames source)) \<longrightarrow>
             (case getOwnPropertyDescriptor ?x k of None \<Rightarrow> True | Some cur \<Rightarrow> \<not> configurable cur)"
  proof (intro ballI impI)
    fix k assume k: "k \<in> set (Set_of (getOwnPropertyNames ?x))"
      and nk: "k \<notin> set (Set_of (getOwnPropertyNames source))"
    from nk have s: "getOwnPropertyDescriptor source k = None"
      using names_iff [of k source] by (simp add: set_Set_of)
    show "case getOwnPropertyDescriptor ?x k of None \<Rightarrow> True | Some cur \<Rightarrow> \<not> configurable cur"
    proof (cases "getOwnPropertyDescriptor target k")
      case None
      have "getOwnPropertyDescriptor (snd (copyMembers (getOwnPropertyNames source) source target)) k = None"
        using copyMembers_untouched [of source k "getOwnPropertyNames source" target] s None by simp
      then have "getOwnPropertyDescriptor ?x k = None"
        using updateObjectMembers_normal [OF n] by (simp add: deleteMembers_lookup)
      then show ?thesis by simp
    next
      case (Some d)
      from updateObjectMembers_removed [OF n Some s] show ?thesis by (simp split: if_splits)
    qed
  qed
  from a deleteMembers_fixed [OF b] show ?thesis by simp
qed

lemma storeMetadata_elsewhere:
  "k \<notin> fst ` set ms \<Longrightarrow>
   getOwnPropertyDescriptor (snd (storeMetadata ms ob)) k = getOwnPropertyDescriptor ob k"
proof (induction ms arbitrary: ob)
  case Nil
  then show ?case by simp
next
  case (Cons a ms)
  obtain j v where a: "a = (j, v)" by (cases a)
  obtain r ob1 where dp: "defineProperty ob j (DataDescriptor v True True True) = (r, ob1)"
    by (cases "defineProperty ob j (DataDescriptor v True True True)")
  have lk: "getOwnPropertyDescriptor ob1 k = getOwnPropertyDescriptor ob k"
    using defineProperty_lookup [of ob j "DataDescriptor v True True True" k] dp Cons.prems a by simp
  show ?case
  proof (cases r)
    case (Throw e)
    then show ?thesis using a dp lk by simp
  next
    case (Normal u)
    then show ?thesis using a dp lk Cons.IH [of ob1] Cons.prems by simp
  qed
qed

lemma storeMetadata_extensible: "extensible (snd (storeMetadata ms ob)) = extensible ob"
proof (induction ms arbitrary: ob)
  case Nil
  then show ?case by simp
next
  case (Cons a ms)
  obtain j v where a: "a = (j, v)" by (cases a)
  obtain r ob1 where dp: "defineProperty ob j (DataDescriptor v True True True) = (r, ob1)"
    by (cases "defineProperty ob j (DataDescriptor v True True True)")
  have "extensible ob1 = extensible ob"
    using defineProperty_extensible [of ob j "DataDescriptor v True True True"] dp by simp
  then show ?case using a dp Cons.IH [of ob1] by (cases r) simp_all
qed

lemma storeMetadata_keeps:
  "getOwnPropertyDescriptor ob k = Some (DataDescriptor (f k) True True True) \<Longrightarrow>
   getOwnPropertyDescriptor (snd (storeMetadata (map (\<lambda>j. (j, f j)) ks) ob)) k =
     Some (DataDescriptor (f k) True True True)"
proof (induction ks arbitrary: ob)
  case Nil
  then show ?case by simp
next
  case (Cons j ks)
  obtain r ob1 where dp: "defineProperty ob j (DataDescriptor (f j) True True True) = (r, ob1)"
    by (cases "defineProperty ob j (DataDescriptor (f j) True True True)")
  have lk: "getOwnPropertyDescriptor ob1 k = Some (DataDescriptor (f k) True True True)"
    using defineProperty_lookup [of ob j "DataDescriptor (f j) True True True" k] dp Cons.prems
    by auto
  show ?case
  proof (cases r)
    case (Throw e)
    then show ?thesis using dp lk by simp
  next
    case (Normal u)
    then show ?thesis using dp Cons.IH [OF lk] by simp
  qed
qed

lemma storeMetadata_again:
  "storeMetadata (map (\<lambda>j. (j, f j)) ks) (snd (storeMetadata (map (\<lambda>j. (j, f j)) ks) ob)) =
   storeMetadata (map (\<lambda>j. (j, f j)) ks) ob"
proof (induction ks arbitrary: ob)
  case Nil
  then show ?case by simp
next
  case (Cons k ks)
  let ?d = "DataDescriptor (f k) True True True"
  obtain r ob1 where dp: "defineProperty ob k ?d = (r, ob1)" by (cases "defineProperty ob k ?d")
  show ?case
  proof (cases r)
    case (Throw e)
    then have "ob1 = ob" using dp defineProperty_throw_state [of ob k ?d e] by simp
    then show ?thesis using dp Throw by simp
  next
    case (Normal u)
    let ?ob2 = "snd (storeMetadata (map (\<lambda>j. (j, f j)) ks) ob1)"
    have eq: "storeMetadata (map (\<lambda>j. (j, f j)) (k # ks)) ob = storeMetadata (map (\<lambda>j. (j, f j)) ks) ob1"
      using dp Normal by simp
    have "getOwnPropertyDescriptor ob1 k = Some ?d"
      using defineProperty_lookup [of ob k ?d k] dp Normal by simp
    then have "getOwnPropertyDescriptor ?ob2 k = Some ?d" by (rule storeMetadata_keeps)
    then have "defineProperty ?ob2 k ?d = (Normal (), ?ob2)" by (rule defineProperty_same) simp
    then have "storeMetadata (map (\<lambda>j. (j, f j)) (k # ks)) ?ob2 = storeMetadata (map (\<lambda>j. (j, f j)) ks) ?ob2"
      by simp
    then show ?thesis unfolding eq using Cons.IH [of ob1] by simp
  qed
qed

text \<open>
  The setup is idempotent, as the spec has it, whenever the derivation does not read the
  metadata itself: whenever it gives the same on two classes that differ in metadata only.
\<close>

lemma finalize_idempotent:
  assumes "\<And>st st' pr k.
             extensible st' = extensible st \<Longrightarrow>
             (\<And>j. j \<notin> set (slots m) \<Longrightarrow> getOwnPropertyDescriptor st' j = getOwnPropertyDescriptor st j) \<Longrightarrow>
             derive m st' pr k = derive m st pr k"
  shows "finalize m (snd (finalize m cls)) = finalize m cls"
proof -
  let ?f = "derive m (statics cls) (prototype cls)"
  let ?ms = "map (\<lambda>k. (k, ?f k)) (slots m)"
  obtain r st where s: "storeMetadata ?ms (statics cls) = (r, st)"
    by (cases "storeMetadata ?ms (statics cls)")
  have c: "finalize m cls = (r, cls\<lparr>statics := st\<rparr>)" using s by (simp add: finalize_def)
  have keys: "fst ` set ?ms = set (slots m)" by force
  have off: "\<And>j. j \<notin> set (slots m) \<Longrightarrow> getOwnPropertyDescriptor st j = getOwnPropertyDescriptor (statics cls) j"
    using storeMetadata_elsewhere [of _ ?ms "statics cls"] s keys by simp
  have ex: "extensible st = extensible (statics cls)"
    using storeMetadata_extensible [of ?ms "statics cls"] s by simp
  have same: "\<And>k. derive m st (prototype cls) k = ?f k"
    using assms [OF ex off] by simp
  have "storeMetadata ?ms st = (r, st)"
    using storeMetadata_again [of ?f "slots m" "statics cls"] s by simp
  then have "finalize m (cls\<lparr>statics := st\<rparr>) = (r, cls\<lparr>statics := st\<rparr>)"
    by (simp add: finalize_def same)
  then show ?thesis by (simp add: c)
qed

lemma updateObjectMembers_after_store:
  assumes n: "updateObjectMembers target source = (Normal (), x)"
    and ms: "\<forall>k\<in>fst ` set ms. \<exists>d. getOwnPropertyDescriptor source k = Some d \<and> configurable d"
  shows "is_Normal (fst (storeMetadata ms x)) \<and>
         updateObjectMembers (snd (storeMetadata ms x)) source = (Normal (), x)"
proof -
  from n have nn: "is_Normal (fst (updateObjectMembers target source))"
    and x: "snd (updateObjectMembers target source) = x" by simp_all
  from updateObjectMembers_result_fixed [OF nn]
  have cp: "copyMembers (getOwnPropertyNames source) source x = (Normal (), x)"
    and dl: "deleteMembers (Set_of (getOwnPropertyNames x)) (Set_of (getOwnPropertyNames source)) x = x"
    by (simp_all add: x)
  have pres: "\<forall>k\<in>fst ` set ms. \<exists>c. getOwnPropertyDescriptor x k = Some c \<and> configurable c"
    using ms updateObjectMembers_copied [OF nn] x by blast
  from storeMetadata_present [OF pres]
  have sn: "is_Normal (fst (storeMetadata ms x))"
    and nm: "getOwnPropertyNames (snd (storeMetadata ms x)) = getOwnPropertyNames x"
    by simp_all
  have "\<forall>k\<in>fst ` set ms. k \<in> set (getOwnPropertyNames source) \<and>
           (\<exists>d. getOwnPropertyDescriptor source k = Some d \<and> configurable d) \<and>
           (\<exists>c. getOwnPropertyDescriptor x k = Some c \<and> configurable c)"
    using ms pres names_iff [of _ source] by auto
  from copyMembers_after_store [OF _ this] cp
  have "copyMembers (getOwnPropertyNames source) source (snd (storeMetadata ms x)) = (Normal (), x)"
    by simp
  then have "updateObjectMembers (snd (storeMetadata ms x)) source = (Normal (), x)"
    using dl nm by (simp add: updateObjectMembers_def Let_def)
  with sn show ?thesis by simp
qed

lemma finalize_slots:
  assumes "finalize m cls = (Normal (), cls')"
  shows "prototype cls' = prototype cls \<and>
         (\<forall>k\<in>set (slots m). \<exists>v. getOwnPropertyDescriptor (statics cls') k = Some (DataDescriptor v True True True))"
proof -
  let ?ms = "map (\<lambda>k. (k, derive m (statics cls) (prototype cls) k)) (slots m)"
  obtain r st where s: "storeMetadata ?ms (statics cls) = (r, st)" by (cases "storeMetadata ?ms (statics cls)")
  with assms have r: "r = Normal ()" and c: "cls' = cls\<lparr>statics := st\<rparr>"
    by (simp_all add: finalize_def)
  have n: "is_Normal (fst (storeMetadata ?ms (statics cls)))" using s r by simp
  have k: "fst ` set ?ms = set (slots m)" by force
  from storeMetadata_lookup [OF n] s k c show ?thesis by auto
qed

section \<open>Migrating members\<close>

text \<open>
  C5, as the code has it. \<open>updateObjectMembers\<close> returns normally exactly if every
  configurable own property of the source finds on the target a configurable property
  of its name, or none and an extensible target; otherwise \<open>Object.defineProperty\<close> throws
  TypeError and nothing catches it. The second loop never throws: the completion of the
  call is that of the first loop. After a normal return, every own string-named property
  of the source whose descriptor is configurable is on the target with that descriptor,
  and every name that was on the target and is not on the source is gone if its property
  was configurable and is as it was if not.
\<close>

theorem updateObjectMembers_migrates:
  "(is_Normal (fst (updateObjectMembers target source)) \<longleftrightarrow> definable target source) \<and>
   fst (updateObjectMembers target source) =
     fst (copyMembers (getOwnPropertyNames source) source target) \<and>
   (is_Normal (fst (updateObjectMembers target source)) \<longrightarrow>
     (\<forall>k d. getOwnPropertyDescriptor source k = Some d \<and> configurable d \<longrightarrow>
        getOwnPropertyDescriptor (snd (updateObjectMembers target source)) k = Some d) \<and>
     (\<forall>k d. getOwnPropertyDescriptor target k = Some d \<and>
             getOwnPropertyDescriptor source k = None \<longrightarrow>
        getOwnPropertyDescriptor (snd (updateObjectMembers target source)) k =
          (if configurable d then None else Some d)))"
  using updateObjectMembers_copied [of target source] updateObjectMembers_removed [of target source]
    updateObjectMembers_completion [of target source]
    updateObjectMembers_normal_iff [of target source]
  by blast

theorem updateObjectMembers_migrates_witness:
  "definable example_old example_new \<and>
   is_Normal (fst (updateObjectMembers example_old example_new)) \<and>
   getOwnPropertyDescriptor (snd (updateObjectMembers example_old example_new)) ''name'' =
     Some (DataDescriptor (VStr ''New'') False False True) \<and>
   getOwnPropertyDescriptor (snd (updateObjectMembers example_old example_new)) ''version'' =
     Some (DataDescriptor (VNum 2) True True True) \<and>
   getOwnPropertyDescriptor (snd (updateObjectMembers example_old example_new)) ''legacy'' = None \<and>
   getOwnPropertyDescriptor (snd (updateObjectMembers example_old example_new)) ''pinned'' =
     Some (DataDescriptor (VNum 7) False False False)"
proof -
  have s: "getOwnPropertyDescriptor example_new ''name'' = Some (DataDescriptor (VStr ''New'') False False True)"
    "getOwnPropertyDescriptor example_new ''version'' = Some (DataDescriptor (VNum 2) True True True)"
    "getOwnPropertyDescriptor example_new ''legacy'' = None"
    "getOwnPropertyDescriptor example_new ''pinned'' = None"
    "getOwnPropertyDescriptor example_old ''legacy'' = Some (DataDescriptor (VNum 1) True True True)"
    "getOwnPropertyDescriptor example_old ''pinned'' = Some (DataDescriptor (VNum 7) False False False)"
    by (simp_all add: example_old_def example_new_def getOwnPropertyDescriptor_def)
  note m = updateObjectMembers_migrates [of example_old example_new]
  from m example_definable
  have n: "is_Normal (fst (updateObjectMembers example_old example_new))" by blast
  from m n s
  have "getOwnPropertyDescriptor (snd (updateObjectMembers example_old example_new)) ''name'' =
     Some (DataDescriptor (VStr ''New'') False False True) \<and>
   getOwnPropertyDescriptor (snd (updateObjectMembers example_old example_new)) ''version'' =
     Some (DataDescriptor (VNum 2) True True True) \<and>
   getOwnPropertyDescriptor (snd (updateObjectMembers example_old example_new)) ''legacy'' = None \<and>
   getOwnPropertyDescriptor (snd (updateObjectMembers example_old example_new)) ''pinned'' =
     Some (DataDescriptor (VNum 7) False False False)"
    by simp
  with example_definable n show ?thesis by blast
qed

text \<open>
  C5 as stated fails: the live class has a non-configurable \<open>pinned\<close>, the replacement a
  configurable one. The call throws TypeError and \<open>pinned\<close> is not overwritten.
\<close>

theorem updateObjectMembers_clash_counterexample:
  "getOwnPropertyDescriptor example_clash ''pinned'' = Some (DataDescriptor (VNum 8) True True True) \<and>
   configurable (DataDescriptor (VNum 8) True True True) \<and>
   fst (updateObjectMembers example_old example_clash) = Throw TypeError \<and>
   getOwnPropertyDescriptor (snd (updateObjectMembers example_old example_clash)) ''pinned'' =
     Some (DataDescriptor (VNum 7) False False False)"
  by (simp add: updateObjectMembers_def defineProperty_def
      getOwnPropertyNames_def getOwnPropertyDescriptor_def example_old_def example_clash_def
      Let_def)

text \<open>
  C10. A name that is an own property of the source is never deleted from the target,
  however the call ends. After the call the target holds under it what it held before,
  or the source's descriptor if that is configurable; a name the target had, it still
  has; and where the copy was skipped (the source's descriptor is not configurable) the
  target's entry is as it was.
\<close>

theorem updateObjectMembers_never_deletes_source_names:
  assumes "getOwnPropertyDescriptor source k = Some d"
  shows "(getOwnPropertyDescriptor (snd (updateObjectMembers target source)) k =
            getOwnPropertyDescriptor target k \<or>
          (configurable d \<and>
            getOwnPropertyDescriptor (snd (updateObjectMembers target source)) k = Some d)) \<and>
         (getOwnPropertyDescriptor target k \<noteq> None \<longrightarrow>
            getOwnPropertyDescriptor (snd (updateObjectMembers target source)) k \<noteq> None) \<and>
         (\<not> configurable d \<longrightarrow>
            getOwnPropertyDescriptor (snd (updateObjectMembers target source)) k =
              getOwnPropertyDescriptor target k)"
proof -
  let ?names = "getOwnPropertyNames source"
  have eq: "getOwnPropertyDescriptor (snd (updateObjectMembers target source)) k =
            getOwnPropertyDescriptor (snd (copyMembers ?names source target)) k"
    using assms by (rule updateObjectMembers_source_name)
  from copyMembers_lookup [of ?names source target k] assms
  show ?thesis unfolding eq by auto
qed

theorem updateObjectMembers_never_deletes_source_names_witness:
  "getOwnPropertyDescriptor example_new ''prototype'' = Some (DataDescriptor (VRef 2) False False False) \<and>
   getOwnPropertyDescriptor (snd (updateObjectMembers example_old example_new)) ''prototype'' =
     Some (DataDescriptor (VRef 1) False False False) \<and>
   getOwnPropertyDescriptor example_old ''prototype'' = Some (DataDescriptor (VRef 1) False False False)"
proof -
  have s: "getOwnPropertyDescriptor example_new ''prototype'' = Some (DataDescriptor (VRef 2) False False False)"
    and t: "getOwnPropertyDescriptor example_old ''prototype'' = Some (DataDescriptor (VRef 1) False False False)"
    by (simp_all add: example_old_def example_new_def getOwnPropertyDescriptor_def)
  from updateObjectMembers_never_deletes_source_names [OF s, of example_old] s t
  show ?thesis by simp
qed

section \<open>The two callbacks\<close>

text \<open>
  C8. Let the mixin's \<open>finalize\<close> be idempotent on the new class: finalizing again the
  class it left ends as it ended and changes nothing (so it is for every class when the
  derivation does not read the metadata itself). Then applying the static callback
  again, to the classes the first application left and with the same new class, ends as
  the first application ended and leaves the old class, its prototype and the new class,
  member for member and in the same order, as the first application left them. When the
  callback returns normally, the second copy restores on the old class what its
  re-finalization stored, the deletion finds nothing more to remove, and the
  re-finalization stores the same again; when it throws, it throws again at the same
  place.
\<close>

theorem hotReplaceCallback_static_idempotent:
  assumes idem: "finalize m (snd (finalize m new)) = finalize m new"
  shows "hotReplaceCallback_static m (snd (hotReplaceCallback_static m (old, new))) =
         hotReplaceCallback_static m (old, new)"
proof -
  obtain r1 n1 where f1: "finalize m new = (r1, n1)" by (cases "finalize m new")
  with idem have f1': "finalize m n1 = (r1, n1)" by simp
  show ?thesis
  proof (cases r1)
    case (Throw e)
    then show ?thesis using f1 f1' by (simp add: hotReplaceCallback_static_def Let_def)
  next
    case n: (Normal u1)
    obtain r2 x where u1: "updateObjectMembers (statics old) (statics n1) = (r2, x)"
      by (cases "updateObjectMembers (statics old) (statics n1)")
    have u1': "updateObjectMembers x (statics n1) = (r2, x)"
      using updateObjectMembers_idem [of "statics old" "statics n1"] u1 by simp
    show ?thesis
    proof (cases r2)
      case (Throw e)
      then show ?thesis
        using f1 f1' n u1 u1' by (simp add: hotReplaceCallback_static_def Let_def)
    next
      case n2: (Normal u2)
      obtain r3 p where u2: "updateObjectMembers (prototype old) (prototype n1) = (r3, p)"
        by (cases "updateObjectMembers (prototype old) (prototype n1)")
      have u2': "updateObjectMembers p (prototype n1) = (r3, p)"
        using updateObjectMembers_idem [of "prototype old" "prototype n1"] u2 by simp
      show ?thesis
      proof (cases r3)
        case (Throw e)
        then show ?thesis
          using f1 f1' n u1 u1' n2 u2 u2' by (simp add: hotReplaceCallback_static_def Let_def)
      next
        case n3: (Normal u3)
        let ?o1 = "old\<lparr>statics := x, prototype := p\<rparr>"
        let ?ms = "map (\<lambda>k. (k, derive m x p k)) (slots m)"
        have sl: "\<forall>k\<in>fst ` set ?ms. \<exists>d. getOwnPropertyDescriptor (statics n1) k = Some d \<and> configurable d"
        proof
          fix k assume "k \<in> fst ` set ?ms"
          then have "k \<in> set (slots m)" by force
          with finalize_slots [of m new n1] f1 n
          obtain v where "getOwnPropertyDescriptor (statics n1) k = Some (DataDescriptor v True True True)"
            by auto
          then show "\<exists>d. getOwnPropertyDescriptor (statics n1) k = Some d \<and> configurable d" by simp
        qed
        from updateObjectMembers_after_store [of "statics old" "statics n1" x ?ms] u1 n2 sl
        have sn: "is_Normal (fst (storeMetadata ?ms x))"
          and rs: "updateObjectMembers (snd (storeMetadata ?ms x)) (statics n1) = (Normal (), x)"
          by simp_all
        obtain r4 o2 where f2: "finalize m ?o1 = (r4, o2)" by (cases "finalize m ?o1")
        have o2: "o2 = ?o1\<lparr>statics := snd (storeMetadata ?ms x)\<rparr>"
          and r4': "r4 = fst (storeMetadata ?ms x)"
          using f2 by (auto simp: finalize_def split: prod.splits)
        from sn have "is_Normal r4" by (simp add: r4')
        then have r4: "r4 = Normal ()" by (cases r4) simp_all
        have k1: "hotReplaceCallback_static m (old, new) = (Normal (), (o2, n1))"
          using f1 n u1 n2 u2 n3 f2 r4 by (simp add: hotReplaceCallback_static_def Let_def)
        have s1: "updateObjectMembers (statics o2) (statics n1) = (Normal (), x)"
          using rs by (simp add: o2)
        have s2: "updateObjectMembers (prototype o2) (prototype n1) = (Normal (), p)"
          using u2' n3 by (simp add: o2)
        have again: "o2\<lparr>statics := x, prototype := p\<rparr> = ?o1" by (simp add: o2)
        have f2': "finalize m (o2\<lparr>statics := x, prototype := p\<rparr>) = (Normal (), o2)"
          by (simp only: again f2 r4)
        have "hotReplaceCallback_static m (o2, n1) = (Normal (), (o2, n1))"
          using f1' n s1 s2 f2' by (simp add: hotReplaceCallback_static_def Let_def)
        then show ?thesis by (simp add: k1)
      qed
    qed
  qed
qed

text \<open>
  The scenario of the two classes. Finalizing \<open>New\<close> counts its three static members.
  After the callback \<open>Old\<close>'s prototype has \<open>New\<close>'s \<open>render\<close>, \<open>Old\<close> has \<open>version\<close>, \<open>legacy\<close>
  is gone, and \<open>_observed\<close> on \<open>Old\<close> is not the count copied from \<open>New\<close> but the one
  recomputed from the merged members, the non-configurable \<open>pinned\<close> among them. A second
  application changes nothing.
\<close>

theorem hotReplaceCallback_static_idempotent_witness:
  "fst (hotReplaceCallback_static example_mixin (example_old_class, example_new_class)) = Normal () \<and>
   finalize example_mixin (snd (finalize example_mixin example_new_class)) =
     finalize example_mixin example_new_class \<and>
   getOwnPropertyDescriptor (statics (snd (finalize example_mixin example_new_class))) ''_observed'' =
     Some (DataDescriptor (VNum 3) True True True) \<and>
   getOwnPropertyDescriptor
     (prototype (fst (snd (hotReplaceCallback_static example_mixin
        (example_old_class, example_new_class))))) ''render'' =
     Some (DataDescriptor (VStr ''B'') True False True) \<and>
   getOwnPropertyDescriptor
     (statics (fst (snd (hotReplaceCallback_static example_mixin
        (example_old_class, example_new_class))))) ''version'' =
     Some (DataDescriptor (VNum 2) True True True) \<and>
   getOwnPropertyDescriptor
     (statics (fst (snd (hotReplaceCallback_static example_mixin
        (example_old_class, example_new_class))))) ''_observed'' =
     Some (DataDescriptor (VNum 4) True True True) \<and>
   getOwnPropertyDescriptor
     (statics (fst (snd (hotReplaceCallback_static example_mixin
        (example_old_class, example_new_class))))) ''legacy'' = None \<and>
   hotReplaceCallback_static example_mixin
     (snd (hotReplaceCallback_static example_mixin (example_old_class, example_new_class))) =
   hotReplaceCallback_static example_mixin (example_old_class, example_new_class)"
proof -
  have f: "finalize example_mixin example_new_class =
      (Normal (),
       \<lparr>statics =
          \<lparr>properties =
             [(''prototype'', DataDescriptor (VRef 2) False False False),
              (''name'', DataDescriptor (VStr ''New'') False False True),
              (''version'', DataDescriptor (VNum 2) True True True),
              (''_observed'', DataDescriptor (VNum 3) True True True)],
           extensible = True\<rparr>,
        prototype = example_new_prototype\<rparr>)"
    by (simp add: finalize_def defineProperty_def getOwnPropertyDescriptor_def
        getOwnPropertyNames_def example_mixin_def example_new_class_def)
  have i: "finalize example_mixin (snd (finalize example_mixin example_new_class)) =
     finalize example_mixin example_new_class"
    unfolding f
    by (simp add: finalize_def defineProperty_def getOwnPropertyDescriptor_def
        getOwnPropertyNames_def example_mixin_def)
  have r: "hotReplaceCallback_static example_mixin (example_old_class, example_new_class) =
      (Normal (),
       (\<lparr>statics =
           \<lparr>properties =
              [(''prototype'', DataDescriptor (VRef 1) False False False),
               (''name'', DataDescriptor (VStr ''New'') False False True),
               (''pinned'', DataDescriptor (VNum 7) False False False),
               (''_observed'', DataDescriptor (VNum 4) True True True),
               (''version'', DataDescriptor (VNum 2) True True True)],
            extensible = True\<rparr>,
         prototype =
           \<lparr>properties =
              [(''constructor'', DataDescriptor (VRef 2) True False True),
               (''render'', DataDescriptor (VStr ''B'') True False True)],
            extensible = True\<rparr>\<rparr>,
        snd (finalize example_mixin example_new_class)))"
    apply (simp only: hotReplaceCallback_static_def fst_conv snd_conv Let_def f)
    apply (simp add: finalize_def updateObjectMembers_def defineProperty_def deleteProperty_def
        getOwnPropertyNames_def getOwnPropertyDescriptor_def Set_of_def
        example_mixin_def example_old_class_def example_old_prototype_def
        example_new_prototype_def Let_def)
    done
  have n: "fst (hotReplaceCallback_static example_mixin (example_old_class, example_new_class)) = Normal ()"
    by (simp add: r)
  have o: "getOwnPropertyDescriptor (statics (snd (finalize example_mixin example_new_class))) ''_observed'' =
     Some (DataDescriptor (VNum 3) True True True)"
    by (simp add: f getOwnPropertyDescriptor_def)
  from hotReplaceCallback_static_idempotent [OF i, of example_old_class] n i o show ?thesis
    by (simp add: r getOwnPropertyDescriptor_def)
qed

text \<open>
  C6. On an instance that has its render root (or in a browser with adoptable style
  sheets, where the root is not touched), the instance callback returns normally and its
  last step is the render request: the state it leaves is \<open>requestRender\<close> applied to the
  state after the style steps, so \<open>__isInvalid\<close> is true and the last event is the
  delegation to the mixin's invalidation, which schedules the flush. When that flush
  comes and the guard lets it through, \<open>_render\<close> is called again.
\<close>

theorem hotReplaceCallback_forces_render:
  assumes "supportsAdoptingStyleSheets w \<or> root s \<noteq> None"
  shows "fst (hotReplaceCallback w s) = Normal () \<and>
         isInvalid (snd (hotReplaceCallback w s)) \<and>
         (\<exists>s3. snd (hotReplaceCallback w s) = requestRender s3 \<and>
               trace s3 = trace s @ GetUniqueStylesCalled #
                 (if windowShadowRoot w \<and> (case root s of None \<Rightarrow> False | Some r \<Rightarrow> isShadowRoot r)
                  then [AdoptStylesCalled] else [])) \<and>
         last (trace (snd (hotReplaceCallback w s))) = SuperInvalidateProperties \<and>
         (\<forall>h cur chg prv. shouldRender h cur chg prv = Normal True \<longrightarrow>
            RenderCalled cur \<in> set (drop (length (trace (snd (hotReplaceCallback w s))))
              (trace (snd (flushProperties h cur chg prv (snd (hotReplaceCallback w s)))))))"
proof -
  obtain s1 where s1: "(if \<not> supportsAdoptingStyleSheets w then removeStyleChildren s else (Normal (), s)) =
      (Normal (), s1)" and tr1: "trace s1 = trace s"
    and sh: "(case root s1 of None \<Rightarrow> False | Some r \<Rightarrow> isShadowRoot r) =
             (case root s of None \<Rightarrow> False | Some r \<Rightarrow> isShadowRoot r)"
  proof (cases "supportsAdoptingStyleSheets w")
    case True
    then show ?thesis using that [of s] by simp
  next
    case False
    with assms obtain r where "root s = Some r" by auto
    then show ?thesis
      using False that [of "s\<lparr>root := Some (r\<lparr>childTags :=
                filter (\<lambda>tag. \<not> (tag \<noteq> [] \<and> toLowerCase tag = ''style'')) (childTags r)\<rparr>)\<rparr>"]
      by (simp add: removeStyleChildren_def)
  qed
  define s3 where "s3 = (if windowShadowRoot w \<and> (case root (getUniqueStyles s1) of None \<Rightarrow> False | Some r \<Rightarrow> isShadowRoot r)
                     then adoptStyles (getUniqueStyles s1) else getUniqueStyles s1)"
  have eq: "hotReplaceCallback w s = (Normal (), requestRender s3)"
    using s1 by (simp add: hotReplaceCallback_def Let_def s3_def requestUpdate_def)
  have tr3: "trace s3 = trace s @ GetUniqueStylesCalled #
                 (if windowShadowRoot w \<and> (case root s of None \<Rightarrow> False | Some r \<Rightarrow> isShadowRoot r)
                  then [AdoptStylesCalled] else [])"
    using tr1 sh by (simp add: s3_def getUniqueStyles_def adoptStyles_def emit_def)
  have a: "fst (hotReplaceCallback w s) = Normal ()" by (simp add: eq)
  have b: "isInvalid (snd (hotReplaceCallback w s))" by (simp add: eq requestRender_effect)
  have c: "\<exists>s3. snd (hotReplaceCallback w s) = requestRender s3 \<and>
               trace s3 = trace s @ GetUniqueStylesCalled #
                 (if windowShadowRoot w \<and> (case root s of None \<Rightarrow> False | Some r \<Rightarrow> isShadowRoot r)
                  then [AdoptStylesCalled] else [])"
    using eq tr3 by (intro exI [of _ s3]) simp
  have d: "last (trace (snd (hotReplaceCallback w s))) = SuperInvalidateProperties"
    by (simp add: eq requestRender_effect)
  have e: "\<forall>h cur chg prv. shouldRender h cur chg prv = Normal True \<longrightarrow>
            RenderCalled cur \<in> set (drop (length (trace (snd (hotReplaceCallback w s))))
              (trace (snd (flushProperties h cur chg prv (snd (hotReplaceCallback w s))))))"
    using flush_calls_render by blast
  show ?thesis by (intro conjI a b c d e)
qed

theorem hotReplaceCallback_forces_render_witness:
  "root ((new_element ''my-element'')
     \<lparr>root := Some \<lparr>nodeId = 0, isShadowRoot = True, childTags = [''STYLE'', ''p'']\<rparr>\<rparr>) \<noteq> None \<and>
   hotReplaceCallback
     \<lparr>windowShadowRoot = True, shadyCSS_nativeShadow = None,
      documentHasAdoptedStyleSheets = False, styleSheetHasReplace = False\<rparr>
     ((new_element ''my-element'')
        \<lparr>root := Some \<lparr>nodeId = 0, isShadowRoot = True, childTags = [''STYLE'', ''p'']\<rparr>\<rparr>) =
     (Normal (),
      \<lparr>renderComplete_promise = None, resolveRenderComplete = None, isInvalid = True,
       isChanging = False,
       root = Some \<lparr>nodeId = 0, isShadowRoot = True, childTags = [''p'']\<rparr>,
       localName = ''my-element'', promiseCount = 0, microtasks = [],
       trace = [GetUniqueStylesCalled, AdoptStylesCalled, SuperInvalidateProperties]\<rparr>)"
proof -
  have l: "toLowerCase ''STYLE'' = ''style''" "toLowerCase ''p'' = ''p''"
    by (simp_all add: toLowerCase_def) code_simp+
  have r: "supportsAdoptingStyleSheets
     \<lparr>windowShadowRoot = True, shadyCSS_nativeShadow = None,
      documentHasAdoptedStyleSheets = False, styleSheetHasReplace = False\<rparr> \<or>
     root ((new_element ''my-element'')
       \<lparr>root := Some \<lparr>nodeId = 0, isShadowRoot = True, childTags = [''STYLE'', ''p'']\<rparr>\<rparr>) \<noteq> None"
    by simp
  from hotReplaceCallback_forces_render [OF r] show ?thesis
    by (simp add: hotReplaceCallback_def removeStyleChildren_def supportsAdoptingStyleSheets_def
        getUniqueStyles_def adoptStyles_def requestUpdate_def requestRender_def
        invalidateProperties_def super_invalidateProperties_def emit_def new_element_def l Let_def)
qed

end
